theory Spec2Isabelle
  imports Main "HOL-Library.Word" "HOL-Library.AList"
begin

section \<open>The Go POC SDK: a shallow embedding of the rule-execution engine\<close>

text \<open>
  The development follows the four Go files of package \<open>sdk\<close>: the configuration
  (\<open>POCConfig\<close>, \<open>Rule\<close> and its getters), the HTTP client (\<open>ExecuteRequest\<close> and
  the cookie store), the expression evaluator, the cookie extractor and the engine
  (\<open>Execute\<close>, \<open>executeRule\<close>, \<open>evaluateMainExpression\<close>).

  Go strings are byte strings, so a Go \<open>string\<close> is a \<^typ>\<open>string\<close> (a list of 8-bit
  characters). Go's \<open>int\<close> and \<open>time.Duration\<close> are 64-bit two's complement integers
  (on the 64-bit platforms Go targets by default): they are \<^typ>\<open>64 word\<close>, read
  with \<^const>\<open>sint\<close>, so that multiplication wraps as it does in Go.
\<close>

subsection \<open>Package \<open>strings\<close>\<close>

text \<open>
  The functions of Go's \<open>strings\<close> package that the program calls, with Go's argument
  order.
\<close>

definition HasPrefix :: "string \<Rightarrow> string \<Rightarrow> bool" where
  "HasPrefix s pre = (take (length pre) s = pre)"

definition HasSuffix :: "string \<Rightarrow> string \<Rightarrow> bool" where
  "HasSuffix s suf = (length suf \<le> length s \<and> drop (length s - length suf) s = suf)"

definition TrimPrefix :: "string \<Rightarrow> string \<Rightarrow> string" where
  "TrimPrefix s pre = (if HasPrefix s pre then drop (length pre) s else s)"

definition TrimSuffix :: "string \<Rightarrow> string \<Rightarrow> string" where
  "TrimSuffix s suf = (if HasSuffix s suf then take (length s - length suf) s else s)"

fun Contains :: "string \<Rightarrow> string \<Rightarrow> bool" where
  "Contains [] sub = (sub = [])"
| "Contains (c # cs) sub = (HasPrefix (c # cs) sub \<or> Contains cs sub)"

definition isSpace :: "char \<Rightarrow> bool" where
  "isSpace c = (c = CHR '' '' \<or> c = CHR 0x09 \<or> c = CHR 0x0A \<or> c = CHR 0x0B
      \<or> c = CHR 0x0C \<or> c = CHR 0x0D)"

text \<open>A byte below \<open>utf8.RuneSelf\<close>: a character of ASCII, encoded as itself.\<close>

definition isASCII :: "char \<Rightarrow> bool" where
  "isASCII c = ((of_char c :: nat) < 128)"

text \<open>
  \<open>strings.TrimSpace\<close> removes the leading and the trailing white space, as Unicode
  defines it (\<open>unicode.IsSpace\<close>). In a byte string that is: one of the six ASCII
  characters of \<open>isSpace\<close>, or the UTF-8 encoding of one of the other white-space code
  points, U+0085, U+00A0, U+1680, U+2000 to U+200A, U+2028, U+2029, U+202F, U+205F and
  U+3000 (\<open>unicodeSpaces\<close>). A byte above 127 that does not begin (at the front) or end
  (at the back) such an encoding decodes to a character that is not white space, and
  trimming stops there. \<open>spaceWidth\<close> is the number of bytes of the white-space character
  at the front of a string, 0 if there is none; \<open>spaceWidthEnd\<close> is the same at the back.
\<close>

definition unicodeSpaces :: "string list" where
  "unicodeSpaces =
     [[CHR 0xC2, CHR 0x85], [CHR 0xC2, CHR 0xA0], [CHR 0xE1, CHR 0x9A, CHR 0x80],
      [CHR 0xE2, CHR 0x80, CHR 0x80], [CHR 0xE2, CHR 0x80, CHR 0x81],
      [CHR 0xE2, CHR 0x80, CHR 0x82], [CHR 0xE2, CHR 0x80, CHR 0x83],
      [CHR 0xE2, CHR 0x80, CHR 0x84], [CHR 0xE2, CHR 0x80, CHR 0x85],
      [CHR 0xE2, CHR 0x80, CHR 0x86], [CHR 0xE2, CHR 0x80, CHR 0x87],
      [CHR 0xE2, CHR 0x80, CHR 0x88], [CHR 0xE2, CHR 0x80, CHR 0x89],
      [CHR 0xE2, CHR 0x80, CHR 0x8A], [CHR 0xE2, CHR 0x80, CHR 0xA8],
      [CHR 0xE2, CHR 0x80, CHR 0xA9], [CHR 0xE2, CHR 0x80, CHR 0xAF],
      [CHR 0xE2, CHR 0x81, CHR 0x9F], [CHR 0xE3, CHR 0x80, CHR 0x80]]"

definition spaceWidth :: "string \<Rightarrow> nat" where
  "spaceWidth s =
     (if s \<noteq> [] \<and> isSpace (hd s) then 1
      else (case List.find (HasPrefix s) unicodeSpaces of Some w \<Rightarrow> length w | None \<Rightarrow> 0))"

definition spaceWidthEnd :: "string \<Rightarrow> nat" where
  "spaceWidthEnd s =
     (if s \<noteq> [] \<and> isSpace (last s) then 1
      else (case List.find (HasSuffix s) unicodeSpaces of Some w \<Rightarrow> length w | None \<Rightarrow> 0))"

lemma HasPrefix_length: "HasPrefix s w \<Longrightarrow> length w \<le> length s"
proof -
  assume "HasPrefix s w"
  then have "length (take (length w) s) = length w"
    by (simp only: HasPrefix_def)
  then show ?thesis by simp
qed

lemma spaceWidth_le: "spaceWidth s \<le> length s"
proof (cases "s \<noteq> [] \<and> isSpace (hd s)")
  case True
  then have "spaceWidth s = 1" by (simp add: spaceWidth_def)
  with True show ?thesis by (cases s) simp_all
next
  case False
  then have eq: "spaceWidth s =
      (case List.find (HasPrefix s) unicodeSpaces of Some w \<Rightarrow> length w | None \<Rightarrow> 0)"
    by (simp only: spaceWidth_def if_False)
  show ?thesis
  proof (cases "List.find (HasPrefix s) unicodeSpaces")
    case None
    then show ?thesis unfolding eq by (simp only: option.case)
  next
    case (Some w)
    then have "HasPrefix s w" unfolding find_Some_iff by blast
    then have "length w \<le> length s" by (rule HasPrefix_length)
    with Some show ?thesis unfolding eq by (simp only: option.case)
  qed
qed

lemma spaceWidthEnd_le: "spaceWidthEnd s \<le> length s"
proof (cases "s \<noteq> [] \<and> isSpace (last s)")
  case True
  then have "spaceWidthEnd s = 1" by (simp add: spaceWidthEnd_def)
  with True show ?thesis by (cases s) simp_all
next
  case False
  then have eq: "spaceWidthEnd s =
      (case List.find (HasSuffix s) unicodeSpaces of Some w \<Rightarrow> length w | None \<Rightarrow> 0)"
    by (simp only: spaceWidthEnd_def if_False)
  show ?thesis
  proof (cases "List.find (HasSuffix s) unicodeSpaces")
    case None
    then show ?thesis unfolding eq by (simp only: option.case)
  next
    case (Some w)
    then have "HasSuffix s w" unfolding find_Some_iff by blast
    then have "length w \<le> length s" by (simp add: HasSuffix_def)
    with Some show ?thesis unfolding eq by (simp only: option.case)
  qed
qed

function TrimLeftSpace :: "string \<Rightarrow> string" where
  "TrimLeftSpace s = (if spaceWidth s = 0 then s else TrimLeftSpace (drop (spaceWidth s) s))"
  by pat_completeness auto
termination
proof (relation "measure length")
  fix s :: string
  assume "spaceWidth s \<noteq> 0"
  with spaceWidth_le [of s] show "(drop (spaceWidth s) s, s) \<in> measure length"
    by simp
qed simp

declare TrimLeftSpace.simps [simp del]

function TrimRightSpace :: "string \<Rightarrow> string" where
  "TrimRightSpace s =
     (if spaceWidthEnd s = 0 then s else TrimRightSpace (take (length s - spaceWidthEnd s) s))"
  by pat_completeness auto
termination
proof (relation "measure length")
  fix s :: string
  assume "spaceWidthEnd s \<noteq> 0"
  with spaceWidthEnd_le [of s]
  show "(take (length s - spaceWidthEnd s) s, s) \<in> measure length"
    by simp
qed simp

declare TrimRightSpace.simps [simp del]

definition TrimSpace :: "string \<Rightarrow> string" where
  "TrimSpace s = TrimRightSpace (TrimLeftSpace s)"

text \<open>\<open>strings.Trim(s, cutset)\<close> removes every leading and trailing byte of the cutset.\<close>

definition Trim :: "string \<Rightarrow> string \<Rightarrow> string" where
  "Trim s cutset =
     rev (dropWhile (\<lambda>c. c \<in> set cutset) (rev (dropWhile (\<lambda>c. c \<in> set cutset) s)))"

definition toLowerChar :: "char \<Rightarrow> char" where
  "toLowerChar c =
     (if 65 \<le> (of_char c :: nat) \<and> (of_char c :: nat) \<le> 90
      then char_of ((of_char c :: nat) + 32) else c)"

text \<open>
  \<open>strings.ToLower\<close> lowers a text of ASCII byte by byte. A text with a byte above 127
  is mapped character by character with Go's Unicode case tables,
  \<open>strings.Map(unicode.ToLower, s)\<close>; the tables are not part of the program, and that
  mapping is the parameter \<open>u\<close>.
\<close>

definition ToLower :: "(string \<Rightarrow> string) \<Rightarrow> string \<Rightarrow> string" where
  "ToLower u s = (if list_all isASCII s then map toLowerChar s else u s)"

text \<open>
  \<open>strings.Split(s, sep)\<close> for a non-empty separator: the pieces between the
  non-overlapping occurrences of \<open>sep\<close>, found left to right; a string without the
  separator is its own single piece. \<open>cur\<close> is the piece being read. (Every call of the
  program passes a literal operator as separator; Go's splitting into characters at an
  empty separator is not used, and the model then returns the string whole.)
\<close>

function Split_from :: "string \<Rightarrow> string \<Rightarrow> string \<Rightarrow> string list" where
  "Split_from sep cur s =
     (if s = [] then [cur]
      else if sep \<noteq> [] \<and> HasPrefix s sep then cur # Split_from sep [] (drop (length sep) s)
      else Split_from sep (cur @ [hd s]) (tl s))"
  by pat_completeness auto
termination
  by (relation "measure (\<lambda>(sep, cur, s). length s)") auto

declare Split_from.simps [simp del]

definition Split :: "string \<Rightarrow> string \<Rightarrow> string list" where
  "Split s sep = Split_from sep [] s"

text \<open>\<open>strings.Join\<close>.\<close>

fun Join :: "string list \<Rightarrow> string \<Rightarrow> string" where
  "Join [] sep = []"
| "Join [x] sep = x"
| "Join (x # y # ys) sep = x @ sep @ Join (y # ys) sep"

subsection \<open>The regular expressions of the program\<close>

text \<open>
  The program uses six fixed regular expressions. Each is modelled by the scanner that
  computes what Go's \<open>regexp\<close> package computes for it (leftmost match, greedy
  repetition); the character classes \<open>\w\<close>, \<open>\d\<close> and the boundary \<open>\b\<close> are
  ASCII in Go.
\<close>

definition isDigit :: "char \<Rightarrow> bool" where
  "isDigit c = (48 \<le> (of_char c :: nat) \<and> (of_char c :: nat) \<le> 57)"

definition isWord :: "char \<Rightarrow> bool" where
  "isWord c = (isDigit c \<or> (65 \<le> (of_char c :: nat) \<and> (of_char c :: nat) \<le> 90)
      \<or> (97 \<le> (of_char c :: nat) \<and> (of_char c :: nat) \<le> 122) \<or> c = CHR ''_'')"

definition isQuote :: "char \<Rightarrow> bool" where
  "isQuote c = (c = CHR 0x27 \<or> c = CHR 0x22)"

text \<open>
  \<open>regexp.MustCompile(`(\w+)\(\)`).ReplaceAllStringFunc(expr, f)\<close>: a match is a
  maximal run of word characters followed by \<open>()\<close>. A run that is not followed by
  \<open>()\<close> holds no match at all (a shorter run is followed by a word character), so its
  characters are copied. \<open>f\<close> receives the rule name, the match without its \<open>()\<close>
  (\<open>strings.TrimSuffix(match, "()")\<close> in the source).
\<close>

function replaceCalls :: "(string \<Rightarrow> string) \<Rightarrow> string \<Rightarrow> string" where
  "replaceCalls f s =
     (if s = [] then []
      else if isWord (hd s) then
        (let name = takeWhile isWord s; rest = dropWhile isWord s
         in if HasPrefix rest ''()'' then f name @ replaceCalls f (drop 2 rest)
            else name @ replaceCalls f rest)
      else hd s # replaceCalls f (tl s))"
  by pat_completeness auto
termination
proof (relation "measure (\<lambda>(f, s). length s)")
  show "wf (measure (\<lambda>(f :: string \<Rightarrow> string, s :: string). length s))"
    by simp
next
  fix f :: "string \<Rightarrow> string" and s name rest :: string
  assume s: "s \<noteq> []" "isWord (hd s)" and rest: "rest = dropWhile isWord s"
  from s have "length (dropWhile isWord s) < length s"
    by (cases s) (simp_all add: le_imp_less_Suc length_dropWhile_le)
  with rest show "((f, drop 2 rest), f, s) \<in> measure (\<lambda>(f, s). length s)"
    by simp
  from \<open>length (dropWhile isWord s) < length s\<close> rest
  show "((f, rest), f, s) \<in> measure (\<lambda>(f, s). length s)"
    by simp
next
  fix f :: "string \<Rightarrow> string" and s :: string
  assume "s \<noteq> []"
  then show "((f, tl s), f, s) \<in> measure (\<lambda>(f, s). length s)"
    by simp
qed

declare replaceCalls.simps [simp del]

text \<open>
  \<open>regexp.MustCompile(`\b(r\d+)\b`).ReplaceAllStringFunc(expr, f)\<close>: a match is the
  letter \<open>r\<close> at a word boundary (the character before it, if any, is not a word
  character), followed by a maximal non-empty run of digits that ends at a word
  boundary (the end of the string or a non-word character). \<open>prev\<close> tells whether the
  character before the current position is a word character.
\<close>

function replaceBare :: "(string \<Rightarrow> string) \<Rightarrow> bool \<Rightarrow> string \<Rightarrow> string" where
  "replaceBare f prev s =
     (if s = [] then []
      else
        (let ds = takeWhile isDigit (tl s); rest = dropWhile isDigit (tl s)
         in if hd s = CHR ''r'' \<and> \<not> prev \<and> ds \<noteq> [] \<and> (rest = [] \<or> \<not> isWord (hd rest))
            then f (CHR ''r'' # ds) @ replaceBare f True rest
            else hd s # replaceBare f (isWord (hd s)) (tl s)))"
  by pat_completeness auto
termination
proof (relation "measure (\<lambda>(f, prev, s). length s)")
  show "wf (measure (\<lambda>(f :: string \<Rightarrow> string, prev :: bool, s :: string). length s))"
    by simp
next
  fix f :: "string \<Rightarrow> string" and prev :: bool and s ds rest :: string
  assume "s \<noteq> []" and "rest = dropWhile isDigit (tl s)"
  then have "length rest < length s"
    by (cases s) (simp_all add: le_imp_less_Suc length_dropWhile_le)
  then show "((f, True, rest), f, prev, s) \<in> measure (\<lambda>(f, prev, s). length s)"
    by simp
next
  fix f :: "string \<Rightarrow> string" and prev :: bool and s :: string
  assume "s \<noteq> []"
  then show "((f, isWord (hd s), tl s), f, prev, s) \<in> measure (\<lambda>(f, prev, s). length s)"
    by simp
qed

declare replaceBare.simps [simp del]

text \<open>
  An identifier is a non-empty run of word characters, what \<open>\w+\<close> matches; a short rule
  name is an identifier that \<open>r\d+\<close> matches as a whole, the letter \<open>r\<close> and then digits.
\<close>

definition isIdentifier :: "string \<Rightarrow> bool" where
  "isIdentifier w = (w \<noteq> [] \<and> list_all isWord w)"

definition isShortName :: "string \<Rightarrow> bool" where
  "isShortName w = (w \<noteq> [] \<and> hd w = CHR ''r'' \<and> tl w \<noteq> [] \<and> list_all isDigit (tl w))"

text \<open>
  The four expressions of the shape \<open>name\(['"]([^'"]+)['"]\)\<close>, where \<open>name\<close> is a
  literal such as \<open>response\.body\.contains\<close>: \<open>FindStringSubmatch\<close> returns the whole
  match and the one group, or nothing. \<open>findCall pre s\<close> is the group of the leftmost
  match, \<open>pre\<close> being the literal with its opening parenthesis. After the quote the
  group is the maximal run of characters that are not quotes; it must be non-empty and
  be followed by a quote and a closing parenthesis.
\<close>

definition matchCallAt :: "string \<Rightarrow> string \<Rightarrow> string option" where
  "matchCallAt pre s =
     (if HasPrefix s pre then
        (case drop (length pre) s of
           [] \<Rightarrow> None
         | q # r \<Rightarrow>
             if isQuote q then
               (let arg = takeWhile (\<lambda>c. \<not> isQuote c) r;
                    rest = dropWhile (\<lambda>c. \<not> isQuote c) r
                in if arg \<noteq> [] \<and> HasPrefix (drop 1 rest) '')'' \<and> rest \<noteq> []
                   then Some arg else None)
             else None)
      else None)"

fun findCall :: "string \<Rightarrow> string \<Rightarrow> string option" where
  "findCall pre [] = matchCallAt pre []"
| "findCall pre (c # cs) =
     (case matchCallAt pre (c # cs) of Some a \<Rightarrow> Some a | None \<Rightarrow> findCall pre cs)"

subsection \<open>The configuration: \<open>POCConfig\<close>, \<open>Rule\<close> and its getters\<close>

type_synonym Duration = "64 word"

text \<open>\<open>time.Second\<close>: a \<open>Duration\<close> counts nanoseconds.\<close>

definition Second :: Duration where
  "Second = 1000000000"

record Rule =
  Rule_Method :: string
  Rule_Path :: string
  Rule_Timeout :: "64 word"
  Rule_RetryCount :: "64 word"
  Rule_Headers :: "string \<rightharpoonup> string"
  Rule_Body :: "string list"
  Rule_ExtractCookie :: string
  Rule_UseCookie :: string
  Rule_CookieExpression :: string
  Rule_Expression :: string

text \<open>
  \<open>POCConfig\<close>: the descriptive fields (name, author, ...) are never read by the
  engine and are left out. \<open>Rules\<close> is a Go map, \<open>map[string]*Rule\<close>: it holds no
  order of declaration.
\<close>

record POCConfig =
  Cfg_Rules :: "string \<rightharpoonup> Rule"
  Cfg_Expression :: string

definition GetTimeout :: "Rule \<Rightarrow> Duration" where
  "GetTimeout r =
     (if word_sle (Rule_Timeout r) 0 then 60 * Second
      else (let timeout = Rule_Timeout r * Second
            in if word_sless timeout (60 * Second) then 60 * Second else timeout))"

definition GetRetryCount :: "Rule \<Rightarrow> 64 word" where
  "GetRetryCount r = (if word_sle (Rule_RetryCount r) 0 then 1 else Rule_RetryCount r)"

definition GetBody :: "Rule \<Rightarrow> string" where
  "GetBody r = (case Rule_Body r of [] \<Rightarrow> [] | b # bs \<Rightarrow> b)"

subsection \<open>The HTTP client\<close>

text \<open>
  \<open>Response\<close>. \<open>Headers\<close> is a Go map from a header name to its values; it is
  listed in the order in which \<open>range\<close> enumerates it. \<open>Cookies\<close> holds, for each
  \<open>http.Cookie\<close>, the text that its \<open>String()\<close> method prints (all the program reads
  of it). \<open>Status\<close> is a Go \<open>int\<close> that is compared and printed but never computed
  with, so it is an \<^typ>\<open>int\<close>.
\<close>

record Response =
  Resp_Status :: int
  Resp_Headers :: "(string \<times> string list) list"
  Resp_Body :: string
  Resp_Cookies :: "string list"

record RequestOptions =
  Opts_Method :: string
  Opts_Path :: string
  Opts_Headers :: "string \<rightharpoonup> string"
  Opts_Body :: string
  Opts_UseCookie :: string
  Opts_Timeout :: Duration
  Opts_RetryCount :: "64 word"

text \<open>
  \<open>HTTPClient\<close>: the base URL and the cookie store. (The \<open>verbose\<close> flag only
  switches log lines on; the TLS fields are fixed configuration.)
\<close>

record HTTPClient =
  baseURL :: string
  cookies :: "string \<rightharpoonup> string"

definition NewHTTPClient :: "string \<Rightarrow> HTTPClient" where
  "NewHTTPClient url = \<lparr>baseURL = url, cookies = Map.empty\<rparr>"

definition StoreCookie :: "HTTPClient \<Rightarrow> string \<Rightarrow> HTTPClient" where
  "StoreCookie c cookieStr = c\<lparr>cookies := (cookies c)(''extracted'' \<mapsto> cookieStr)\<rparr>"

text \<open>Reading a Go map at a missing key gives the zero value, the empty string.\<close>

definition GetStoredCookie :: "HTTPClient \<Rightarrow> string" where
  "GetStoredCookie c = (case cookies c ''extracted'' of None \<Rightarrow> [] | Some v \<Rightarrow> v)"

text \<open>
  The request that one attempt builds: method, URL and body, the headers of the options,
  and the \<open>Cookie\<close> header that the attempt sets on top of them (if any), to be sent by
  a client with the given timeout.
\<close>

record Request =
  Req_Method :: string
  Req_URL :: string
  Req_Headers :: "string \<rightharpoonup> string"
  Req_Cookie :: "string option"
  Req_Body :: string
  Req_Timeout :: Duration

text \<open>
  The errors of the program, one constructor for each place that makes one; an error
  that wraps another (\<open>%w\<close>) holds it.
\<close>

datatype dyn = DInt int | DString string | DBool bool

datatype error =
    NewRequestError
  | DoError
  | ReadBodyError
  | RetriesExhausted "64 word" "error option"
  | UnsupportedExpression string
  | InvalidComparison string
  | InvalidNumericComparison string
  | UnsupportedOperator string
  | ContainsParseError string
  | CookieContainsParseError string
  | HeaderGetParseError string
  | NotANumber dyn
  | AtoiError string
  | EmptyResponse
  | BodyExtractParseError string
  | InvalidRegexp string
  | ExtractedCookieNeedsContext
  | UnsupportedExtraction string
  | HTTPRequestFailed error
  | CookieValidationFailed error
  | CookieInvalid
  | ExpressionEvaluationFailed error
  | ExpressionNotSatisfied string
  | RuleFailed string error

text \<open>
  What lies outside the program. One attempt of \<open>ExecuteRequest\<close> ends in one of four
  ways: \<open>http.NewRequest\<close> fails, \<open>client.Do\<close> fails, reading the body fails, or a
  response is read. \<open>transport\<close> gives the outcome of an attempt from the number of
  attempts made before it and the request. \<open>regexp\<close> stands for Go's
  \<open>regexp.Compile\<close> on a pattern of the configuration: \<open>None\<close> when the pattern does
  not compile, else the function \<open>FindStringSubmatch\<close> of the compiled expression (the
  empty list when nothing matches). \<open>unicodeToLower\<close> stands for
  \<open>strings.Map(unicode.ToLower, _)\<close>, the lowering of a text that is not ASCII.
\<close>

datatype attempt = NewRequestFails | DoFails | ReadAllFails | Responds Response

record env =
  transport :: "nat \<Rightarrow> Request \<Rightarrow> attempt"
  regexp :: "string \<Rightarrow> (string \<Rightarrow> string list) option"
  unicodeToLower :: "string \<Rightarrow> string"

text \<open>
  The trace of a run: what the program did to the outside, oldest first. An event is a
  call of \<open>time.Sleep\<close> with its duration, or one attempt with the request it builds.
  \<open>attemptsMade\<close> counts the attempts of a trace.
\<close>

datatype event = Sleep Duration | Attempt Request

type_synonym trace = "event list"

fun isAttempt :: "event \<Rightarrow> bool" where
  "isAttempt (Attempt q) = True"
| "isAttempt (Sleep d) = False"

definition attemptsMade :: "trace \<Rightarrow> nat" where
  "attemptsMade t = length (filter isAttempt t)"

text \<open>An attempt fails when it ends without a response.\<close>

fun failed :: "attempt \<Rightarrow> bool" where
  "failed (Responds r) = False"
| "failed NewRequestFails = True"
| "failed DoFails = True"
| "failed ReadAllFails = True"

text \<open>The event before the last one of a trace: after a retry, the wait before the last attempt.\<close>

definition lastWait :: "trace \<Rightarrow> event" where
  "lastWait t = last (butlast t)"

definition buildRequest :: "HTTPClient \<Rightarrow> RequestOptions \<Rightarrow> string \<Rightarrow> Request" where
  "buildRequest c opts url =
     \<lparr>Req_Method = Opts_Method opts,
      Req_URL = url,
      Req_Headers = Opts_Headers opts,
      Req_Cookie =
        (if Opts_UseCookie opts \<noteq> [] then
           (if Opts_UseCookie opts = ''response.extracted_cookie'' then
              (if GetStoredCookie c \<noteq> [] then Some (GetStoredCookie c) else None)
            else Some (Opts_UseCookie opts))
         else None),
      Req_Body = Opts_Body opts,
      Req_Timeout = Opts_Timeout opts\<rparr>"

text \<open>
  The retry loop, \<open>for i := 0; i <= opts.RetryCount; i++\<close>. The counter is a Go
  \<open>int\<close>; with \<open>RetryCount\<close> at the largest \<open>int\<close> the condition never fails, so the
  loop is a partial function: \<open>None\<close> is a loop that never returns.
\<close>

partial_function (option) retryLoop ::
  "env \<Rightarrow> HTTPClient \<Rightarrow> RequestOptions \<Rightarrow> string \<Rightarrow> 64 word \<Rightarrow> error option \<Rightarrow> trace
     \<Rightarrow> ((error + Response) \<times> trace) option" where
  "retryLoop E c opts url i lastErr t =
     (if word_sle i (Opts_RetryCount opts) then
        (let t1 = (if word_sless 0 i then t @ [Sleep (Second * (i * 2))] else t);
             req = buildRequest c opts url
         in case transport E (attemptsMade t1) req of
              NewRequestFails \<Rightarrow>
                retryLoop E c opts url (i + 1) (Some NewRequestError) (t1 @ [Attempt req])
            | DoFails \<Rightarrow>
                retryLoop E c opts url (i + 1) (Some DoError) (t1 @ [Attempt req])
            | ReadAllFails \<Rightarrow>
                retryLoop E c opts url (i + 1) (Some ReadBodyError) (t1 @ [Attempt req])
            | Responds r \<Rightarrow> Some (Inr r, t1 @ [Attempt req]))
      else Some (Inl (RetriesExhausted (Opts_RetryCount opts) lastErr), t))"

definition ExecuteRequest ::
  "env \<Rightarrow> HTTPClient \<Rightarrow> RequestOptions \<Rightarrow> trace \<Rightarrow> ((error + Response) \<times> trace) option" where
  "ExecuteRequest E c opts t =
     (let url = TrimSuffix (baseURL c) ''/'';
          path = (if \<not> HasPrefix (Opts_Path opts) ''/'' then ''/'' @ Opts_Path opts
                  else Opts_Path opts);
          url = url @ path;
          opts = (if word_sless (Opts_Timeout opts) (60 * Second)
                  then opts\<lparr>Opts_Timeout := 60 * Second\<rparr> else opts)
      in retryLoop E c opts url 0 None t)"

subsection \<open>The expression evaluator\<close>

text \<open>
  \<open>strconv.Atoi\<close>: an optional sign and then decimal digits only, at least one; a
  number outside the 64-bit range is an error.
\<close>

definition digitsValue :: "string \<Rightarrow> int" where
  "digitsValue ds = foldl (\<lambda>acc c. acc * 10 + ((of_char c :: int) - 48)) 0 ds"

definition Atoi :: "string \<Rightarrow> int option" where
  "Atoi s =
     (let neg = (s \<noteq> [] \<and> hd s = CHR ''-'');
          ds = (if s \<noteq> [] \<and> (hd s = CHR ''-'' \<or> hd s = CHR ''+'') then tl s else s)
      in if ds = [] then None
         else if list_ex (\<lambda>c. \<not> isDigit c) ds then None
         else if neg then
           (if 2 ^ 63 < digitsValue ds then None else Some (- digitsValue ds))
         else
           (if 2 ^ 63 - 1 < digitsValue ds then None else Some (digitsValue ds)))"

text \<open>
  \<open>fmt.Sprintf("%v", v)\<close> for the three dynamic types a value of the expression
  language can have.
\<close>

function decimal :: "int \<Rightarrow> string" where
  "decimal n =
     (if n < 10 then [char_of (48 + n)] else decimal (n div 10) @ [char_of (48 + n mod 10)])"
  by pat_completeness auto
termination
  by (relation "measure nat") auto

declare decimal.simps [simp del]

fun Sprint :: "dyn \<Rightarrow> string" where
  "Sprint (DInt i) = (if i < 0 then CHR ''-'' # decimal (- i) else decimal i)"
| "Sprint (DString s) = s"
| "Sprint (DBool b) = (if b then ''true'' else ''false'')"

text \<open>
  The evaluator's fields \<open>response\<close> (a pointer, \<open>nil\<close> is \<open>None\<close>) and \<open>cookie\<close>,
  which \<open>Evaluate\<close> sets before anything else and every method reads. (The field
  \<open>context\<close> is never read.)
\<close>

type_synonym ectx = "Response option \<times> string"

definition removeComments :: "string \<Rightarrow> string" where
  "removeComments s = takeWhile (\<lambda>c. c \<noteq> CHR ''#'') s"

definition evaluateContains :: "ectx \<Rightarrow> string \<Rightarrow> error + bool" where
  "evaluateContains ctx expr =
     (case findCall ''response.body.contains('' expr of
        None \<Rightarrow> Inl (ContainsParseError expr)
      | Some m \<Rightarrow>
          (case fst ctx of None \<Rightarrow> Inr False | Some r \<Rightarrow> Inr (Contains (Resp_Body r) m)))"

definition evaluateCookieContains :: "ectx \<Rightarrow> string \<Rightarrow> error + bool" where
  "evaluateCookieContains ctx expr =
     (case findCall ''cookie.contains('' expr of
        None \<Rightarrow> Inl (CookieContainsParseError expr)
      | Some m \<Rightarrow> Inr (Contains (snd ctx) m))"

text \<open>
  The loop over the response headers: the first header, in the order of enumeration,
  whose lower-cased name is the wanted one and that has a value.
\<close>

fun findHeader :: "env \<Rightarrow> (string \<times> string list) list \<Rightarrow> string \<Rightarrow> string list option" where
  "findHeader E [] lower = None"
| "findHeader E ((k, v) # hs) lower =
     (if ToLower (unicodeToLower E) k = lower \<and> v \<noteq> [] then Some v else findHeader E hs lower)"

definition evaluateHeaderGet :: "env \<Rightarrow> ectx \<Rightarrow> string \<Rightarrow> error + string" where
  "evaluateHeaderGet E ctx expr =
     (case findCall ''response.headers.get('' expr of
        None \<Rightarrow> Inl (HeaderGetParseError expr)
      | Some headerName \<Rightarrow>
          (case fst ctx of
             None \<Rightarrow> Inr []
           | Some r \<Rightarrow>
               (case findHeader E (Resp_Headers r) (ToLower (unicodeToLower E) headerName) of
                  Some v \<Rightarrow> Inr (hd v)
                | None \<Rightarrow> Inr [])))"

definition evaluateValue :: "env \<Rightarrow> ectx \<Rightarrow> string \<Rightarrow> error + dyn" where
  "evaluateValue E ctx expr0 =
     (let expr = TrimSpace expr0 in
      if HasPrefix expr [CHR 0x27] \<and> HasSuffix expr [CHR 0x27]
        then Inr (DString (Trim expr [CHR 0x27]))
      else if HasPrefix expr [CHR 0x22] \<and> HasSuffix expr [CHR 0x22]
        then Inr (DString (Trim expr [CHR 0x22]))
      else if expr = ''response.status''
        then (case fst ctx of None \<Rightarrow> Inr (DInt 0) | Some r \<Rightarrow> Inr (DInt (Resp_Status r)))
      else if Contains expr ''response.body.contains''
        then map_sum id DBool (evaluateContains ctx expr)
      else if Contains expr ''cookie.contains''
        then map_sum id DBool (evaluateCookieContains ctx expr)
      else if Contains expr ''response.headers.get''
        then map_sum id DString (evaluateHeaderGet E ctx expr)
      else (case Atoi expr of Some num \<Rightarrow> Inr (DInt num) | None \<Rightarrow> Inr (DString expr)))"

definition evaluateNumericValue :: "env \<Rightarrow> ectx \<Rightarrow> string \<Rightarrow> error + int" where
  "evaluateNumericValue E ctx expr =
     (case evaluateValue E ctx expr of
        Inl err \<Rightarrow> Inl err
      | Inr (DInt v) \<Rightarrow> Inr v
      | Inr (DString v) \<Rightarrow> (case Atoi v of Some i \<Rightarrow> Inr i | None \<Rightarrow> Inl (AtoiError v))
      | Inr (DBool v) \<Rightarrow> Inl (NotANumber (DBool v)))"

definition evaluateComparison ::
  "env \<Rightarrow> ectx \<Rightarrow> string \<Rightarrow> string \<Rightarrow> (dyn \<Rightarrow> dyn \<Rightarrow> bool) \<Rightarrow> error + bool" where
  "evaluateComparison E ctx expr op compare =
     (case Split expr op of
        [l, r] \<Rightarrow>
          (case evaluateValue E ctx (TrimSpace l) of
             Inl err \<Rightarrow> Inl err
           | Inr leftVal \<Rightarrow>
               (case evaluateValue E ctx (TrimSpace r) of
                  Inl err \<Rightarrow> Inl err
                | Inr rightVal \<Rightarrow> Inr (compare leftVal rightVal)))
      | _ \<Rightarrow> Inl (InvalidComparison expr))"

definition evaluateNumericComparison :: "env \<Rightarrow> ectx \<Rightarrow> string \<Rightarrow> string \<Rightarrow> error + bool" where
  "evaluateNumericComparison E ctx expr op =
     (case Split expr op of
        [l, r] \<Rightarrow>
          (case evaluateNumericValue E ctx (TrimSpace l) of
             Inl err \<Rightarrow> Inl err
           | Inr leftVal \<Rightarrow>
               (case evaluateNumericValue E ctx (TrimSpace r) of
                  Inl err \<Rightarrow> Inl err
                | Inr rightVal \<Rightarrow>
                    if op = ''>='' then Inr (leftVal \<ge> rightVal)
                    else if op = ''<='' then Inr (leftVal \<le> rightVal)
                    else if op = ''>'' then Inr (leftVal > rightVal)
                    else if op = ''<'' then Inr (leftVal < rightVal)
                    else Inl (UnsupportedOperator op)))
      | _ \<Rightarrow> Inl (InvalidNumericComparison expr))"

text \<open>
  The clause of \<open>evaluateSingle\<close> below its parenthesis case: no recursion.
\<close>

definition evaluateClause :: "env \<Rightarrow> ectx \<Rightarrow> string \<Rightarrow> error + bool" where
  "evaluateClause E ctx expr =
     (if Contains expr ''response.body.contains'' then evaluateContains ctx expr
      else if Contains expr ''cookie.contains'' then evaluateCookieContains ctx expr
      else if Contains expr ''=='' then
        evaluateComparison E ctx expr ''=='' (\<lambda>a b. Sprint a = Sprint b)
      else if Contains expr ''!='' then
        evaluateComparison E ctx expr ''!='' (\<lambda>a b. Sprint a \<noteq> Sprint b)
      else if Contains expr ''>='' then evaluateNumericComparison E ctx expr ''>=''
      else if Contains expr ''<='' then evaluateNumericComparison E ctx expr ''<=''
      else if Contains expr ''>'' \<and> \<not> Contains expr ''>=''
        then evaluateNumericComparison E ctx expr ''>''
      else if Contains expr ''<'' \<and> \<not> Contains expr ''<=''
        then evaluateNumericComparison E ctx expr ''<''
      else Inl (UnsupportedExpression expr))"

text \<open>
  \<open>Evaluate\<close>, \<open>evaluateAnd\<close>, \<open>evaluateOr\<close> and \<open>evaluateSingle\<close> call each other:
  a clause in parentheses is evaluated as an expression of its own. The two loops over
  the split expression are \<open>evaluateAndLoop\<close> (with the running \<open>result\<close>; it reads
  every part, so that a later part can still fail) and \<open>evaluateOrLoop\<close> (which stops
  at the first true part). The recursion ends because a clause in parentheses is
  shorter once \<open>strings.Trim(expr, "()")\<close> has removed them; the lemmas below bound the
  lengths.
\<close>

lemma length_TrimLeftSpace_le: "length (TrimLeftSpace s) \<le> length s"
proof (induction s rule: TrimLeftSpace.induct)
  case (1 s)
  show ?case
  proof (cases "spaceWidth s = 0")
    case True
    then show ?thesis by (simp add: TrimLeftSpace.simps)
  next
    case False
    with 1 have "length (TrimLeftSpace (drop (spaceWidth s) s)) \<le> length s"
      by simp
    with False show ?thesis by (subst TrimLeftSpace.simps) simp
  qed
qed

lemma length_TrimRightSpace_le: "length (TrimRightSpace s) \<le> length s"
proof (induction s rule: TrimRightSpace.induct)
  case (1 s)
  show ?case
  proof (cases "spaceWidthEnd s = 0")
    case True
    then show ?thesis by (simp add: TrimRightSpace.simps)
  next
    case False
    with 1 have "length (TrimRightSpace (take (length s - spaceWidthEnd s) s)) \<le> length s"
      by simp
    with False show ?thesis by (subst TrimRightSpace.simps) simp
  qed
qed

lemma length_TrimSpace_le: "length (TrimSpace s) \<le> length s"
  unfolding TrimSpace_def
  using length_TrimLeftSpace_le length_TrimRightSpace_le order_trans by blast

lemma length_removeComments_le: "length (removeComments s) \<le> length s"
  unfolding removeComments_def by (simp add: length_takeWhile_le)

lemma sum_length_Split_from:
  "sum_list (map length (Split_from sep cur s)) \<le> length cur + length s"
proof (induction sep cur s rule: Split_from.induct)
  case (1 sep cur s)
  show ?case
  proof (cases "s = []")
    case True
    then show ?thesis by (simp add: Split_from.simps)
  next
    case ne: False
    show ?thesis
    proof (cases "sep \<noteq> [] \<and> HasPrefix s sep")
      case True
      with ne 1(1) show ?thesis
        by (subst Split_from.simps) (simp add: le_diff_conv)
    next
      case False
      with ne 1(2) have "sum_list (map length (Split_from sep (cur @ [hd s]) (tl s)))
          \<le> length (cur @ [hd s]) + length (tl s)"
        by blast
      with ne False show ?thesis
        by (subst Split_from.simps) (cases s, auto)
    qed
  qed
qed

lemma sum_length_Split: "sum_list (map length (Split s sep)) \<le> length s"
  using sum_length_Split_from [of sep "[]" s] by (simp add: Split_def)

lemma length_Trim_parens:
  assumes "HasPrefix e ''(''"
  shows "length (Trim e ''()'') < length e"
proof -
  from assms obtain t where e: "e = CHR ''('' # t"
    by (cases e) (auto simp: HasPrefix_def)
  have "length (Trim e ''()'') \<le> length (dropWhile (\<lambda>c. c \<in> set ''()'') e)"
    unfolding Trim_def by (metis length_dropWhile_le length_rev)
  also have "\<dots> \<le> length t"
    unfolding e by (simp add: length_dropWhile_le)
  finally show ?thesis by (simp add: e)
qed






function Evaluate :: "env \<Rightarrow> ectx \<Rightarrow> string \<Rightarrow> error + bool"
  and evaluateAnd :: "env \<Rightarrow> ectx \<Rightarrow> string \<Rightarrow> error + bool"
  and evaluateAndLoop :: "env \<Rightarrow> ectx \<Rightarrow> bool \<Rightarrow> string list \<Rightarrow> error + bool"
  and evaluateOr :: "env \<Rightarrow> ectx \<Rightarrow> string \<Rightarrow> error + bool"
  and evaluateOrLoop :: "env \<Rightarrow> ectx \<Rightarrow> string list \<Rightarrow> error + bool"
  and evaluateSingle :: "env \<Rightarrow> ectx \<Rightarrow> string \<Rightarrow> error + bool"
where
  "Evaluate E ctx expr =
     (if Contains (TrimSpace (removeComments expr)) ''||''
        then evaluateOr E ctx (TrimSpace (removeComments expr))
      else if Contains (TrimSpace (removeComments expr)) ''&&''
        then evaluateAnd E ctx (TrimSpace (removeComments expr))
      else evaluateSingle E ctx (TrimSpace (removeComments expr)))"
| "evaluateAnd E ctx expr = evaluateAndLoop E ctx True (Split expr ''&&'')"
| "evaluateAndLoop E ctx result [] = Inr result"
| "evaluateAndLoop E ctx result (part # parts) =
     (case evaluateSingle E ctx (TrimSpace part) of
        Inl err \<Rightarrow> Inl err
      | Inr v \<Rightarrow> evaluateAndLoop E ctx (result \<and> v) parts)"
| "evaluateOr E ctx expr = evaluateOrLoop E ctx (Split expr ''||'')"
| "evaluateOrLoop E ctx [] = Inr False"
| "evaluateOrLoop E ctx (part # parts) =
     (case evaluateSingle E ctx (TrimSpace part) of
        Inl err \<Rightarrow> Inl err
      | Inr v \<Rightarrow> if v then Inr True else evaluateOrLoop E ctx parts)"
| "evaluateSingle E ctx expr =
     (if HasPrefix (TrimSpace expr) ''('' \<and> HasSuffix (TrimSpace expr) '')''
        then Evaluate E ctx (Trim (TrimSpace expr) ''()'')
      else evaluateClause E ctx (TrimSpace expr))"
  by pat_completeness auto
termination
proof (relation "measures
   [\<lambda>x. case x of
       Inl (Inl (E, c, e)) \<Rightarrow> length e
     | Inl (Inr (Inl (E, c, e))) \<Rightarrow> length e
     | Inl (Inr (Inr (E, c, r, ps))) \<Rightarrow> sum_list (map length ps)
     | Inr (Inl (E, c, e)) \<Rightarrow> length e
     | Inr (Inr (Inl (E, c, ps))) \<Rightarrow> sum_list (map length ps)
     | Inr (Inr (Inr (E, c, e))) \<Rightarrow> length e,
    \<lambda>x. case x of
       Inl (Inl (E, c, e)) \<Rightarrow> 3
     | Inl (Inr (Inl (E, c, e))) \<Rightarrow> 2
     | Inl (Inr (Inr (E, c, r, ps))) \<Rightarrow> 1
     | Inr (Inl (E, c, e)) \<Rightarrow> 2
     | Inr (Inr (Inl (E, c, ps))) \<Rightarrow> 1
     | Inr (Inr (Inr (E, c, e))) \<Rightarrow> 0,
    \<lambda>x. case x of
       Inl (Inr (Inr (E, c, r, ps))) \<Rightarrow> length ps
     | Inr (Inr (Inl (E, c, ps))) \<Rightarrow> length ps
     | _ \<Rightarrow> 0]", goal_cases)
  case 1
  show ?case by simp
next
  case (2 E ctx expr)
  have "length (TrimSpace (removeComments expr)) \<le> length expr"
    using length_TrimSpace_le length_removeComments_le order_trans by blast
  then show ?case by auto
next
  case (3 E ctx expr)
  have "length (TrimSpace (removeComments expr)) \<le> length expr"
    using length_TrimSpace_le length_removeComments_le order_trans by blast
  then show ?case by auto
next
  case (4 E ctx expr)
  have "length (TrimSpace (removeComments expr)) \<le> length expr"
    using length_TrimSpace_le length_removeComments_le order_trans by blast
  then show ?case by auto
next
  case (5 E ctx expr)
  show ?case using sum_length_Split [of expr "''&&''"] by auto
next
  case (6 E ctx result part parts)
  show ?case using length_TrimSpace_le [of part] by auto
next
  case 7
  show ?case by simp
next
  case (8 E ctx expr)
  show ?case using sum_length_Split [of expr "''||''"] by auto
next
  case (9 E ctx part parts)
  show ?case using length_TrimSpace_le [of part] by auto
next
  case 10
  show ?case by simp
next
  case (11 E ctx expr)
  then have "length (Trim (TrimSpace expr) ''()'') < length (TrimSpace expr)"
    by (simp add: length_Trim_parens)
  with length_TrimSpace_le [of expr] show ?case by simp
qed

declare Evaluate.simps [simp del] evaluateAnd.simps [simp del] evaluateOr.simps [simp del]
  evaluateSingle.simps [simp del]


subsection \<open>The cookie extractor\<close>

definition convertRustRegex :: "string \<Rightarrow> string" where
  "convertRustRegex pattern =
     TrimSuffix (TrimSuffix (TrimPrefix (TrimPrefix pattern (''r'' @ [CHR 0x27]))
       (''r'' @ [CHR 0x22])) [CHR 0x27]) [CHR 0x22]"

definition ExtractCookie :: "env \<Rightarrow> string \<Rightarrow> Response option \<Rightarrow> error + string" where
  "ExtractCookie E expr response =
     (case response of
        None \<Rightarrow> Inl EmptyResponse
      | Some r \<Rightarrow>
          if Contains expr ''response.headers.get'' then
            (case findCall ''response.headers.get('' expr of
               None \<Rightarrow> Inl (HeaderGetParseError expr)
             | Some headerName \<Rightarrow>
                 (case findHeader E (Resp_Headers r) (ToLower (unicodeToLower E) headerName) of
                    Some v \<Rightarrow> Inr (Join v ''; '')
                  | None \<Rightarrow>
                      if Resp_Cookies r \<noteq> [] then Inr (Join (Resp_Cookies r) ''; '')
                      else Inr []))
          else if Contains expr ''response.body.extract'' then
            (case findCall ''response.body.extract('' expr of
               None \<Rightarrow> Inl (BodyExtractParseError expr)
             | Some pattern \<Rightarrow>
                 (case regexp E (convertRustRegex pattern) of
                    None \<Rightarrow> Inl (InvalidRegexp (convertRustRegex pattern))
                  | Some submatch \<Rightarrow>
                      if length (submatch (Resp_Body r)) > 1
                      then Inr (submatch (Resp_Body r) ! 1)
                      else Inr []))
          else if expr = ''response.extracted_cookie'' then Inl ExtractedCookieNeedsContext
          else Inl (UnsupportedExtraction expr))"

definition ValidateCookie :: "env \<Rightarrow> string \<Rightarrow> string \<Rightarrow> error + bool" where
  "ValidateCookie E expr cookie =
     (if expr = [] then Inr True
      else Evaluate E
        (Some \<lparr>Resp_Status = 200, Resp_Headers = [], Resp_Body = [], Resp_Cookies = []\<rparr>, cookie)
        expr)"

subsection \<open>The engine\<close>

text \<open>
  \<open>Engine\<close>: the configuration, the client and the results of the rules. The map
  \<open>ruleResults\<close> is kept as an association list, updated with \<^const>\<open>AList.update\<close> and
  read with \<^const>\<open>map_of\<close>. (The evaluator and the cookie extractor hold no state
  between calls.)
\<close>

record Engine =
  config :: POCConfig
  httpClient :: HTTPClient
  ruleResults :: "(string \<times> bool) list"

definition NewEngine :: "POCConfig \<Rightarrow> string \<Rightarrow> Engine" where
  "NewEngine cfg url = \<lparr>config = cfg, httpClient = NewHTTPClient url, ruleResults = []\<rparr>"

text \<open>The engine's own method \<open>removeComments\<close>, a copy of the evaluator's function.\<close>

definition Engine_removeComments :: "string \<Rightarrow> string" where
  "Engine_removeComments s = takeWhile (\<lambda>c. c \<noteq> CHR ''#'') s"

text \<open>
  The function that both substitutions of \<open>evaluateMainExpression\<close> apply to a match:
  the text \<open>true\<close> for a rule recorded as true, \<open>false\<close> for a rule recorded as false
  and for a name with no record.
\<close>

definition ruleText :: "Engine \<Rightarrow> string \<Rightarrow> string" where
  "ruleText e ruleName =
     (case map_of (ruleResults e) ruleName of
        Some result \<Rightarrow> if result then ''true'' else ''false''
      | None \<Rightarrow> ''false'')"

definition evaluateMainExpression :: "Engine \<Rightarrow> string \<Rightarrow> error + bool" where
  "evaluateMainExpression e expr0 =
     (let expr = TrimSpace (Engine_removeComments expr0);
          expr = replaceCalls (ruleText e) expr;
          expr = replaceBare (ruleText e) False expr
      in if Contains expr ''&&'' then
           (if list_ex (\<lambda>part. TrimSpace part = ''false'') (Split expr ''&&'')
            then Inr False else Inr True)
         else if Contains expr ''||'' then
           (if list_ex (\<lambda>part. TrimSpace part = ''true'') (Split expr ''||'')
            then Inr True else Inr False)
         else Inr (expr = ''true''))"

text \<open>The request options that \<open>executeRule\<close> prepares from a rule (\<open>opts\<close>).\<close>

definition ruleOptions :: "Rule \<Rightarrow> RequestOptions" where
  "ruleOptions rule =
     \<lparr>Opts_Method = Rule_Method rule,
      Opts_Path = Rule_Path rule,
      Opts_Headers = Rule_Headers rule,
      Opts_Body = GetBody rule,
      Opts_UseCookie = Rule_UseCookie rule,
      Opts_Timeout = GetTimeout rule,
      Opts_RetryCount = GetRetryCount rule\<rparr>"

text \<open>
  \<open>executeRule\<close>. What it changes (the stored cookie) stays changed when it returns an
  error, so the engine is returned in every case.
\<close>

definition executeRule ::
  "env \<Rightarrow> Engine \<Rightarrow> string \<Rightarrow> Rule \<Rightarrow> trace \<Rightarrow> ((error + bool) \<times> Engine \<times> trace) option" where
  "executeRule E e ruleName rule t =
     (case ExecuteRequest E (httpClient e) (ruleOptions rule) t of
        None \<Rightarrow> None
      | Some (Inl err, t') \<Rightarrow> Some (Inl (HTTPRequestFailed err), e, t')
      | Some (Inr response, t') \<Rightarrow>
          (let e1 =
             (if Rule_ExtractCookie rule \<noteq> [] then
                (case ExtractCookie E (Rule_ExtractCookie rule) (Some response) of
                   Inr cookie \<Rightarrow>
                     if cookie \<noteq> [] then e\<lparr>httpClient := StoreCookie (httpClient e) cookie\<rparr>
                     else e
                 | Inl err \<Rightarrow> e)
              else e);
             cookieToValidate =
               (if Rule_UseCookie rule \<noteq> []
                   \<and> Rule_UseCookie rule \<noteq> ''response.extracted_cookie''
                then Rule_UseCookie rule else GetStoredCookie (httpClient e1));
             cookieCheck =
               (if Rule_CookieExpression rule \<noteq> [] then
                  (case ValidateCookie E (Rule_CookieExpression rule) cookieToValidate of
                     Inl err \<Rightarrow> Some (CookieValidationFailed err)
                   | Inr valid \<Rightarrow> if \<not> valid then Some CookieInvalid else None)
                else None)
           in case cookieCheck of
                Some err \<Rightarrow> Some (Inl err, e1, t')
              | None \<Rightarrow>
                  if Rule_Expression rule \<noteq> [] then
                    (case Evaluate E (Some response, GetStoredCookie (httpClient e1))
                            (Rule_Expression rule) of
                       Inl err \<Rightarrow> Some (Inl (ExpressionEvaluationFailed err), e1, t')
                     | Inr valid \<Rightarrow>
                         if \<not> valid
                         then Some (Inl (ExpressionNotSatisfied (Rule_Expression rule)), e1, t')
                         else Some (Inr True, e1, t'))
                  else Some (Inr True, e1, t')))"

text \<open>
  The loop of \<open>Execute\<close>, \<open>for ruleName, rule := range e.config.Rules\<close>. Go does not
  specify the order in which \<open>range\<close> enumerates a map, and the runtime varies it from
  one loop to the next: \<open>order\<close> is the enumeration this loop gets, any list of the keys
  of the map without repetition (\<open>rangeOrder\<close>). The loop returns the error that ended
  it, if any.
\<close>

definition rangeOrder :: "('k \<rightharpoonup> 'v) \<Rightarrow> 'k list \<Rightarrow> bool" where
  "rangeOrder m order = (distinct order \<and> set order = dom m)"

fun executeRules ::
  "env \<Rightarrow> Engine \<Rightarrow> string list \<Rightarrow> trace \<Rightarrow> (error option \<times> Engine \<times> trace) option" where
  "executeRules E e [] t = Some (None, e, t)"
| "executeRules E e (ruleName # rest) t =
     (case Cfg_Rules (config e) ruleName of
        None \<Rightarrow> executeRules E e rest t
      | Some rule \<Rightarrow>
          (case executeRule E e ruleName rule t of
             None \<Rightarrow> None
           | Some (Inl err, e', t') \<Rightarrow> Some (Some (RuleFailed ruleName err), e', t')
           | Some (Inr success, e', t') \<Rightarrow>
               executeRules E
                 (e'\<lparr>ruleResults := AList.update ruleName success (ruleResults e')\<rparr>) rest t'))"

definition Execute ::
  "env \<Rightarrow> Engine \<Rightarrow> string list \<Rightarrow> trace \<Rightarrow> ((error + bool) \<times> Engine \<times> trace) option" where
  "Execute E e order t =
     (case executeRules E e order t of
        None \<Rightarrow> None
      | Some (Some err, e', t') \<Rightarrow> Some (Inl err, e', t')
      | Some (None, e', t') \<Rightarrow>
          if Cfg_Expression (config e') \<noteq> []
          then Some (evaluateMainExpression e' (Cfg_Expression (config e')), e', t')
          else Some (Inr (list_all snd (ruleResults e')), e', t'))"

section \<open>Inputs of the examples\<close>

text \<open>
  An engine after a run that recorded the rule \<open>login\<close> as false and \<open>r0\<close> as true.
\<close>

definition loginEngine :: Engine where
  "loginEngine = (NewEngine \<lparr>Cfg_Rules = Map.empty, Cfg_Expression = ''login && r0''\<rparr> ''http://target'')
     \<lparr>ruleResults := [(''login'', False), (''r0'', True)]\<rparr>"


text \<open>
  A rule that only sends a \<open>GET\<close> request, with no timeout and no retry count declared
  (both zero), the response \<open>200\<close> with nothing in it, and the request that the rule
  makes against the target \<open>http://target/\<close>.
\<close>

definition plainRule :: "string \<Rightarrow> Rule" where
  "plainRule path =
     \<lparr>Rule_Method = ''GET'', Rule_Path = path, Rule_Timeout = 0, Rule_RetryCount = 0,
      Rule_Headers = Map.empty, Rule_Body = [], Rule_ExtractCookie = [], Rule_UseCookie = [],
      Rule_CookieExpression = [], Rule_Expression = []\<rparr>"

definition okResponse :: Response where
  "okResponse = \<lparr>Resp_Status = 200, Resp_Headers = [], Resp_Body = [], Resp_Cookies = []\<rparr>"

definition request0 :: Request where
  "request0 = \<lparr>Req_Method = ''GET'', Req_URL = ''http://target/'', Req_Headers = Map.empty,
     Req_Cookie = None, Req_Body = [], Req_Timeout = 60000000000\<rparr>"

definition targetEngine :: "POCConfig \<Rightarrow> Engine" where
  "targetEngine cfg = NewEngine cfg ''http://target/''"

text \<open>
  Three networks: one that answers every attempt, one that answers none, and one that
  fails the first \<open>k\<close> attempts and answers from then on.
\<close>

definition alwaysOK :: env where
  "alwaysOK = \<lparr>transport = (\<lambda>k q. Responds okResponse), regexp = (\<lambda>p. None), unicodeToLower = (\<lambda>s. s)\<rparr>"

definition neverAnswers :: env where
  "neverAnswers = \<lparr>transport = (\<lambda>k q. DoFails), regexp = (\<lambda>p. None), unicodeToLower = (\<lambda>s. s)\<rparr>"

definition respondsAfter :: "nat \<Rightarrow> env" where
  "respondsAfter k =
     \<lparr>transport = (\<lambda>j q. if j < k then DoFails else Responds okResponse),
      regexp = (\<lambda>p. None), unicodeToLower = (\<lambda>s. s)\<rparr>"

text \<open>Rules with a declared timeout of 30 and of 9223372037 seconds, and with a retry count.\<close>

definition rule30 :: Rule where
  "rule30 = (plainRule ''/'')\<lparr>Rule_Timeout := 30\<rparr>"

definition rule9223372037 :: Rule where
  "rule9223372037 = (plainRule ''/'')\<lparr>Rule_Timeout := 9223372037\<rparr>"

definition retryRule :: "64 word \<Rightarrow> Rule" where
  "retryRule k = (plainRule ''/'')\<lparr>Rule_RetryCount := k\<rparr>"

text \<open>
  A configuration of two rules \<open>r0\<close> and \<open>r1\<close>, the request of a rule to a URL with a
  given \<open>Cookie\<close> header, and rules that differ from the plain one in one field: an
  extraction expression, a cookie-validation expression, a response-validation
  expression, a cookie directive.
\<close>

definition twoRules :: "Rule \<Rightarrow> Rule \<Rightarrow> string \<Rightarrow> POCConfig" where
  "twoRules a b x = \<lparr>Cfg_Rules = [''r0'' \<mapsto> a, ''r1'' \<mapsto> b], Cfg_Expression = x\<rparr>"

definition requestTo :: "string \<Rightarrow> string option \<Rightarrow> Request" where
  "requestTo url cookie = \<lparr>Req_Method = ''GET'', Req_URL = url, Req_Headers = Map.empty,
     Req_Cookie = cookie, Req_Body = [], Req_Timeout = 60000000000\<rparr>"

definition extractRule :: "string \<Rightarrow> string \<Rightarrow> Rule" where
  "extractRule path x = (plainRule path)\<lparr>Rule_ExtractCookie := x\<rparr>"

definition sessionRule :: Rule where
  "sessionRule = (plainRule ''/admin'')\<lparr>Rule_CookieExpression := ''cookie.contains('session')''\<rparr>"

definition statusRule :: Rule where
  "statusRule = (plainRule ''/'')\<lparr>Rule_Expression := ''response.status==200''\<rparr>"

definition loginRule :: Rule where
  "loginRule = (plainRule ''/login'')\<lparr>Rule_ExtractCookie := ''response.headers.get('Set-Cookie')''\<rparr>"

definition adminRule :: Rule where
  "adminRule = (plainRule ''/admin'')\<lparr>Rule_UseCookie := ''response.extracted_cookie''\<rparr>"

text \<open>A network that answers 404 to everything, and one whose answers set a cookie.\<close>

definition notFound :: env where
  "notFound = \<lparr>transport = (\<lambda>k q. Responds (okResponse\<lparr>Resp_Status := 404\<rparr>)),
     regexp = (\<lambda>p. None), unicodeToLower = (\<lambda>s. s)\<rparr>"

definition setsCookie :: env where
  "setsCookie =
     \<lparr>transport = (\<lambda>k q. Responds (okResponse\<lparr>Resp_Headers := [(''Set-Cookie'', [''sid=1''])]\<rparr>)),
      regexp = (\<lambda>p. None), unicodeToLower = (\<lambda>s. s)\<rparr>"

text \<open>A string literal of the expression language, in single and in double quotes.\<close>

definition quoted :: "string \<Rightarrow> string" where
  "quoted s = [CHR 0x27] @ s @ [CHR 0x27]"

definition dquoted :: "string \<Rightarrow> string" where
  "dquoted s = [CHR 0x22] @ s @ [CHR 0x22]"

text \<open>
  An operator between two identifiers: a text without word characters, comment signs or
  parentheses, such as \<open>&&\<close> between two spaces. And what the second substitution of
  \<open>evaluateMainExpression\<close> makes of an identifier: the result text of a short rule name,
  any other identifier as it stands.
\<close>

definition isOperatorText :: "string \<Rightarrow> bool" where
  "isOperatorText m = (m \<noteq> [] \<and> list_all (\<lambda>c. \<not> isWord c \<and> isASCII c \<and> c \<noteq> CHR ''#''
      \<and> c \<noteq> CHR ''('' \<and> c \<noteq> CHR '')'') m)"

definition bareText :: "Engine \<Rightarrow> string \<Rightarrow> string" where
  "bareText e w = (if isShortName w then ruleText e w else w)"

section \<open>Properties\<close>

subsection \<open>Trimming a text of ASCII\<close>

text \<open>
  No encoding of \<open>unicodeSpaces\<close> begins or ends with an ASCII byte, so in a text of
  ASCII only the six characters of \<open>isSpace\<close> are trimmed.
\<close>

lemma unicodeSpaces_bytes:
  "w \<in> set unicodeSpaces \<Longrightarrow> w \<noteq> [] \<and> \<not> isASCII (hd w) \<and> \<not> isASCII (last w) \<and> \<not> isSpace (hd w) \<and> \<not> isSpace (last w)"
  by (auto simp: unicodeSpaces_def isASCII_def isSpace_def)

lemma spaceWidth_ascii:
  assumes "s = [] \<or> isASCII (hd s)"
  shows "spaceWidth s = (if s \<noteq> [] \<and> isSpace (hd s) then 1 else 0)"
proof -
  have "\<not> HasPrefix s w" if "w \<in> set unicodeSpaces" for w
  proof
    assume "HasPrefix s w"
    then have t: "take (length w) s = w" by (simp only: HasPrefix_def)
    from unicodeSpaces_bytes [OF that] have w: "w \<noteq> []" "\<not> isASCII (hd w)" by simp_all
    from t w(1) have "s \<noteq> []" by auto
    with t w(1) have "hd s = hd w" by (cases s; cases w) auto
    with assms \<open>s \<noteq> []\<close> w(2) show False by simp
  qed
  then have "List.find (HasPrefix s) unicodeSpaces = None"
    by (simp add: find_None_iff)
  then show ?thesis unfolding spaceWidth_def by (simp only: option.case if_cancel)
qed

lemma spaceWidthEnd_ascii:
  assumes "s = [] \<or> isASCII (last s)"
  shows "spaceWidthEnd s = (if s \<noteq> [] \<and> isSpace (last s) then 1 else 0)"
proof -
  have "\<not> HasSuffix s w" if "w \<in> set unicodeSpaces" for w
  proof
    assume "HasSuffix s w"
    then have t: "length w \<le> length s" "drop (length s - length w) s = w"
      by (simp_all only: HasSuffix_def)
    from unicodeSpaces_bytes [OF that] have w: "w \<noteq> []" "\<not> isASCII (last w)" by simp_all
    from t w(1) have "s \<noteq> []" by auto
    from t w(1) have "last s = last w"
      by (metis last_drop drop_eq_Nil not_le)
    with assms \<open>s \<noteq> []\<close> w(2) show False by simp
  qed
  then have "List.find (HasSuffix s) unicodeSpaces = None"
    by (simp add: find_None_iff)
  then show ?thesis unfolding spaceWidthEnd_def by (simp only: option.case if_cancel)
qed

lemma TrimLeftSpace_ascii:
  "list_all isASCII s \<Longrightarrow> TrimLeftSpace s = dropWhile isSpace s"
proof (induction s)
  case Nil
  show ?case by (subst TrimLeftSpace.simps) (simp add: spaceWidth_ascii)
next
  case (Cons c s)
  then have w: "spaceWidth (c # s) = (if isSpace c then 1 else 0)"
    by (simp add: spaceWidth_ascii)
  from Cons show ?case
    by (subst TrimLeftSpace.simps) (simp add: w)
qed

lemma TrimRightSpace_ascii:
  "list_all isASCII s \<Longrightarrow> TrimRightSpace s = rev (dropWhile isSpace (rev s))"
proof (induction s rule: rev_induct)
  case Nil
  show ?case by (subst TrimRightSpace.simps) (simp add: spaceWidthEnd_ascii)
next
  case (snoc c s)
  then have w: "spaceWidthEnd (s @ [c]) = (if isSpace c then 1 else 0)"
    by (simp add: spaceWidthEnd_ascii)
  from snoc show ?case
    by (subst TrimRightSpace.simps) (simp add: w)
qed

lemma TrimSpace_ascii:
  assumes "list_all isASCII s"
  shows "TrimSpace s = rev (dropWhile isSpace (rev (dropWhile isSpace s)))"
proof -
  from assms have "list_all isASCII (dropWhile isSpace s)"
    by (auto simp: list_all_iff dest: set_dropWhileD)
  with assms show ?thesis
    by (simp add: TrimSpace_def TrimLeftSpace_ascii TrimRightSpace_ascii)
qed

text \<open>The definitions that evaluating the string functions on a given text unfolds.\<close>

lemmas string_defs = HasPrefix_def HasSuffix_def TrimPrefix_def TrimSuffix_def isSpace_def
  isASCII_def TrimSpace_ascii Trim_def isDigit_def isWord_def isQuote_def Split_def Split_from.simps

lemmas eval_defs = Evaluate.simps evaluateAnd.simps evaluateOr.simps evaluateSingle.simps
  evaluateClause_def evaluateContains_def evaluateCookieContains_def evaluateHeaderGet_def
  evaluateValue_def evaluateNumericValue_def evaluateComparison_def
  evaluateNumericComparison_def removeComments_def matchCallAt_def Atoi_def digitsValue_def
  decimal.simps

lemmas run_defs = Execute_def executeRule_def ExecuteRequest_def retryLoop.simps [of _ _ _ _ 0]
  retryLoop.simps [of _ _ _ _ 1] retryLoop.simps [of _ _ _ _ 2] Let_def ruleOptions_def
  GetTimeout_def GetRetryCount_def GetBody_def NewEngine_def NewHTTPClient_def buildRequest_def
  GetStoredCookie_def StoreCookie_def ValidateCookie_def ExtractCookie_def Second_def
  word_sle_eq word_sless_alt

lemmas example_defs = plainRule_def okResponse_def request0_def requestTo_def targetEngine_def
  twoRules_def alwaysOK_def neverAnswers_def notFound_def setsCookie_def sessionRule_def
  statusRule_def loginRule_def adminRule_def attemptsMade_def

subsection \<open>The aggregate expression\<close>

lemma isWord_r: "isWord (CHR ''r'')"
  by (simp add: isWord_def isDigit_def)

lemma isDigit_isWord: "isDigit c \<Longrightarrow> isWord c"
  by (simp add: isWord_def)

lemma replaceBare_Nil: "replaceBare f p [] = []"
  by (subst replaceBare.simps) simp

lemma replaceBare_nonword: "\<not> isWord c \<Longrightarrow> replaceBare f p (c # s) = c # replaceBare f False s"
  using isWord_r by (subst replaceBare.simps) (auto simp: Let_def)

lemma replaceBare_after_word_append: "list_all isWord w \<Longrightarrow> replaceBare f True (w @ s) = w @ replaceBare f True s"
proof (induction w)
  case Nil
  show ?case by simp
next
  case (Cons c w)
  then have "replaceBare f True ((c # w) @ s) = c # replaceBare f True (w @ s)"
    by (subst replaceBare.simps) simp
  with Cons show ?case by simp
qed

lemma replaceBare_boundary:
  "s = [] \<or> \<not> isWord (hd s) \<Longrightarrow> replaceBare f True s = replaceBare f False s"
  by (cases s) (simp_all add: replaceBare_Nil replaceBare_nonword)

lemma takeWhile_boundary:
  assumes "s = [] \<or> \<not> isWord (hd s)"
  shows "takeWhile isDigit s = []" and "takeWhile isWord s = []"
  using assms isDigit_isWord by (cases s; auto)+

lemma replaceBare_word:
  assumes w: "isIdentifier w" and post: "post = [] \<or> \<not> isWord (hd post)"
  shows "replaceBare f False (w @ post) = (if isShortName w then f w else w) @ replaceBare f False post"
proof -
  from w obtain c t where wc: "w = c # t" and c: "isWord c" and t: "list_all isWord t"
    by (cases w) (auto simp: isIdentifier_def)
  let ?ds = "takeWhile isDigit (t @ post)" and ?rest = "dropWhile isDigit (t @ post)"
  show ?thesis
  proof (cases "isShortName w")
    case True
    then have cr: "c = CHR ''r''" and tne: "t \<noteq> []" and digits: "\<forall>x\<in>set t. isDigit x"
      by (simp_all add: isShortName_def wc list_all_iff)
    from digits have ds: "?ds = t"
      by (simp add: takeWhile_append2 takeWhile_boundary(1) [OF post])
    from digits have "?rest = dropWhile isDigit post"
      by (simp add: dropWhile_append2)
    also have "\<dots> = post"
      using takeWhile_boundary(1) [OF post] by (cases post) (auto split: if_splits)
    finally have rest: "?rest = post" .
    have "replaceBare f False ((c # t) @ post) = f (CHR ''r'' # t) @ replaceBare f True post"
      using cr tne post by (subst replaceBare.simps) (simp add: Let_def ds rest del: takeWhile_append dropWhile_append)
    with True cr show ?thesis
      by (simp add: wc replaceBare_boundary [OF post])
  next
    case False
    have nomatch: "\<not> (c = CHR ''r'' \<and> ?ds \<noteq> [] \<and> (?rest = [] \<or> \<not> isWord (hd ?rest)))"
    proof
      assume a: "c = CHR ''r'' \<and> ?ds \<noteq> [] \<and> (?rest = [] \<or> \<not> isWord (hd ?rest))"
      show False
      proof (cases "\<forall>x\<in>set t. isDigit x")
        case True
        then have "?ds = t"
          by (simp add: takeWhile_append2 takeWhile_boundary(1) [OF post])
        with a have "t \<noteq> []" by simp
        with a True False show False
          by (simp add: isShortName_def wc list_all_iff)
      next
        case nd: False
        then obtain x where x: "x \<in> set t" "\<not> isDigit x" by blast
        then have r: "?rest = dropWhile isDigit t @ post"
          by (simp add: dropWhile_append1)
        from x have ne: "dropWhile isDigit t \<noteq> []"
          by (auto simp: dropWhile_eq_Nil_conv)
        then have "hd (dropWhile isDigit t) \<in> set (dropWhile isDigit t)" by simp
        then have "hd (dropWhile isDigit t) \<in> set t" by (rule set_dropWhileD)
        with t have "isWord (hd (dropWhile isDigit t))" by (simp add: list_all_iff)
        with a ne show False unfolding r by simp
      qed
    qed
    then have "replaceBare f False ((c # t) @ post) = c # replaceBare f (isWord c) (t @ post)"
      by (subst replaceBare.simps) (auto simp: Let_def simp del: takeWhile_append dropWhile_append)
    with c t False show ?thesis
      by (simp add: wc replaceBare_after_word_append replaceBare_boundary [OF post])
  qed
qed

lemma replaceBare_append:
  "pre \<noteq> [] \<Longrightarrow> \<not> isWord (last pre)
    \<Longrightarrow> replaceBare f p (pre @ s) = replaceBare f p pre @ replaceBare f False s"
proof (induction "length pre" arbitrary: pre p rule: less_induct)
  case less
  from less.prems obtain c t where pre: "pre = c # t" by (cases pre) auto
  show ?case
  proof (cases "t = []")
    case True
    with less.prems pre show ?thesis
      by (simp add: replaceBare_nonword replaceBare_Nil)
  next
    case tne: False
    with less.prems pre have lt: "\<not> isWord (last t)" by simp
    with tne isDigit_isWord have nd: "last t \<in> set t" "\<not> isDigit (last t)" by auto
    let ?ds = "takeWhile isDigit t" and ?rest = "dropWhile isDigit t"
    have ds: "takeWhile isDigit (t @ s) = ?ds"
      using nd by (simp add: takeWhile_append1)
    have rest: "dropWhile isDigit (t @ s) = ?rest @ s"
      using nd by (simp add: dropWhile_append1)
    have rne: "?rest \<noteq> []"
      using nd by (auto simp: dropWhile_eq_Nil_conv)
    have lrest: "last ?rest = last t"
      using rne by (metis last_appendR takeWhile_dropWhile_id)
    have len: "length ?rest < length pre"
      unfolding pre using length_dropWhile_le [of isDigit t] by simp
    show ?thesis
    proof (cases "c = CHR ''r'' \<and> \<not> p \<and> ?ds \<noteq> [] \<and> \<not> isWord (hd ?rest)")
      case True
      have l: "replaceBare f p ((c # t) @ s) = f (CHR ''r'' # ?ds) @ replaceBare f True (?rest @ s)"
        using True rne
        by (subst replaceBare.simps) (simp add: Let_def ds rest del: takeWhile_append dropWhile_append)
      have r: "replaceBare f p (c # t) = f (CHR ''r'' # ?ds) @ replaceBare f True ?rest"
        using True rne by (subst replaceBare.simps) (simp add: Let_def)
      from less.hyps [OF len rne, of True] lrest lt
      have "replaceBare f True (?rest @ s) = replaceBare f True ?rest @ replaceBare f False s"
        by simp
      with l r show ?thesis by (simp add: pre)
    next
      case False
      have l: "replaceBare f p ((c # t) @ s) = c # replaceBare f (isWord c) (t @ s)"
        using False rne
        by (subst replaceBare.simps) (auto simp: Let_def ds rest simp del: takeWhile_append dropWhile_append)
      have r: "replaceBare f p (c # t) = c # replaceBare f (isWord c) t"
        using False rne by (subst replaceBare.simps) (auto simp: Let_def)
      have "length t < length pre" by (simp add: pre)
      from less.hyps [OF this tne lt, of "isWord c"] l r show ?thesis
        by (simp add: pre)
    qed
  qed
qed

lemma replaceBare_token:
  assumes "pre = [] \<or> \<not> isWord (last pre)" and "isIdentifier w"
    and "post = [] \<or> \<not> isWord (hd post)"
  shows "replaceBare f False (pre @ w @ post)
    = replaceBare f False pre @ (if isShortName w then f w else w) @ replaceBare f False post"
proof (cases "pre = []")
  case True
  with assms show ?thesis by (simp add: replaceBare_word replaceBare_Nil)
next
  case False
  with assms(1) have "replaceBare f False (pre @ w @ post)
      = replaceBare f False pre @ replaceBare f False (w @ post)"
    by (simp add: replaceBare_append)
  with assms(2,3) show ?thesis by (simp add: replaceBare_word)
qed

lemma replaceCalls_Nil: "replaceCalls f [] = []"
  by (subst replaceCalls.simps) simp

lemma replaceCalls_nonword: "\<not> isWord c \<Longrightarrow> replaceCalls f (c # s) = c # replaceCalls f s"
  by (subst replaceCalls.simps) simp

lemma replaceCalls_word:
  assumes w: "isIdentifier w" and post: "post = [] \<or> \<not> isWord (hd post)"
  shows "replaceCalls f (w @ post) =
    (if HasPrefix post ''()'' then f w @ replaceCalls f (drop 2 post)
     else w @ replaceCalls f post)"
proof -
  from w have ne: "w @ post \<noteq> []" and hd: "isWord (hd (w @ post))"
    and all: "\<forall>x\<in>set w. isWord x"
    by (cases w; simp add: isIdentifier_def list_all_iff)+
  have name: "takeWhile isWord (w @ post) = w"
    using all by (simp add: takeWhile_append2 takeWhile_boundary(2) [OF post])
  have "dropWhile isWord (w @ post) = dropWhile isWord post"
    using all by (simp add: dropWhile_append2)
  also have "\<dots> = post"
    using post by (cases post) auto
  finally have rest: "dropWhile isWord (w @ post) = post" .
  have "replaceCalls f (w @ post) =
      (let name = takeWhile isWord (w @ post); rest = dropWhile isWord (w @ post)
       in if HasPrefix rest ''()'' then f name @ replaceCalls f (drop 2 rest)
          else name @ replaceCalls f rest)"
    by (subst replaceCalls.simps) (simp only: ne hd if_False if_True)
  then show ?thesis
    unfolding Let_def name rest .
qed




lemma isWord_chars:
  assumes "isWord c"
  shows "isASCII c" "\<not> isSpace c" "c \<noteq> CHR ''#''" "c \<noteq> CHR ''&''" "c \<noteq> CHR ''|''"
    "c \<noteq> CHR ''(''" "c \<noteq> CHR '')''"
  using assms by (auto simp: isWord_def isDigit_def isASCII_def isSpace_def)

lemma isIdentifier_chars:
  assumes "isIdentifier w"
  shows "w \<noteq> []" "isWord (hd w)" "isWord (last w)" "\<forall>c\<in>set w. isWord c"
  using assms by (auto simp: isIdentifier_def list_all_iff)

lemma isShortName_isIdentifier: "isShortName w \<Longrightarrow> isIdentifier w"
proof -
  assume a: "isShortName w"
  then obtain t where w: "w = CHR ''r'' # t" and t: "list_all isDigit t"
    by (cases w) (auto simp: isShortName_def)
  from t have "list_all isWord t"
    by (auto simp: list_all_iff isDigit_isWord)
  with w isWord_r show ?thesis by (simp add: isIdentifier_def)
qed

lemma Engine_removeComments_id: "\<forall>c\<in>set s. c \<noteq> CHR ''#'' \<Longrightarrow> Engine_removeComments s = s"
  by (simp add: Engine_removeComments_def takeWhile_eq_all_conv)

lemma TrimSpace_id:
  assumes "list_all isASCII s" and "s \<noteq> []" and "\<not> isSpace (hd s)" and "\<not> isSpace (last s)"
  shows "TrimSpace s = s"
proof -
  from assms(2,3) have 1: "dropWhile isSpace s = s" by (cases s) simp_all
  from assms(2,4) have 2: "dropWhile isSpace (rev s) = rev s"
    by (cases "rev s") (simp_all add: hd_rev [symmetric])
  show ?thesis by (simp add: TrimSpace_ascii [OF assms(1)] 1 2)
qed

lemma TrimSpace_segment:
  assumes "isIdentifier w"
  shows "TrimSpace (w @ '' '') = w" and "TrimSpace (CHR '' '' # w) = w" and "TrimSpace w = w"
proof -
  note w = isIdentifier_chars [OF assms]
  from w(4) have ascii: "list_all isASCII w"
    by (simp add: list_all_iff isWord_chars(1))
  have sp: "isSpace (CHR '' '')" "isASCII (CHR '' '')"
    by (simp_all add: isSpace_def isASCII_def)
  from w have nsp: "\<not> isSpace (hd w)" "\<not> isSpace (last w)"
    by (simp_all add: isWord_chars(2))
  from w(1) nsp(1) have 1: "dropWhile isSpace w = w" by (cases w) simp_all
  from w(1) nsp(2) have 2: "dropWhile isSpace (rev w) = rev w"
    by (cases "rev w") (simp_all add: hd_rev [symmetric])
  from w(1) nsp(1) have 3: "dropWhile isSpace (w @ '' '') = w @ '' ''" by (cases w) simp_all
  have a1: "list_all isASCII (w @ '' '')" and a2: "list_all isASCII (CHR '' '' # w)"
    using ascii sp by simp_all
  show "TrimSpace (w @ '' '') = w"
    by (simp add: TrimSpace_ascii [OF a1] 3 sp 2 del: dropWhile_append)
  show "TrimSpace (CHR '' '' # w) = w"
    by (simp add: TrimSpace_ascii [OF a2] sp 1 2)
  show "TrimSpace w = w"
    using ascii w(1) nsp by (rule TrimSpace_id)
qed

lemma Contains_appendI: "Contains s sub \<Longrightarrow> Contains (w @ s) sub"
  by (induction w) simp_all


lemma Split_from_Nil: "Split_from sep cur [] = [cur]"
  by (subst Split_from.simps) simp

lemma Split_from_skip:
  "\<forall>c\<in>set w. c \<noteq> a \<Longrightarrow> Split_from (a # sep) cur (w @ s) = Split_from (a # sep) (cur @ w) s"
proof (induction w arbitrary: cur)
  case Nil
  show ?case by simp
next
  case (Cons c w)
  then have "Split_from (a # sep) cur ((c # w) @ s) = Split_from (a # sep) (cur @ [c]) (w @ s)"
    by (subst Split_from.simps) (simp add: HasPrefix_def)
  with Cons show ?case by simp
qed

lemma ruleText_cases:
  "ruleText e n = (if map_of (ruleResults e) n = Some True then ''true'' else ''false'')"
  by (simp add: ruleText_def split: option.splits)

lemma ruleText_isIdentifier: "isIdentifier (ruleText e n)"
  by (simp add: ruleText_cases isIdentifier_def isWord_def isDigit_def)

lemma bareText_isIdentifier: "isIdentifier w \<Longrightarrow> isIdentifier (bareText e w)"
  by (simp add: bareText_def ruleText_isIdentifier)

lemma evaluate_segments_and:
  assumes a: "isIdentifier a" and b: "isIdentifier b"
  shows "Contains (a @ '' && '' @ b) ''&&''"
    and "Split (a @ '' && '' @ b) ''&&'' = [a @ '' '', '' '' @ b]"
proof -
  have "Contains ('' && '' @ b) ''&&''"
    by (simp add: HasPrefix_def)
  then show "Contains (a @ '' && '' @ b) ''&&''"
    by (rule Contains_appendI)
  from isIdentifier_chars(4) [OF a] have na: "\<forall>c\<in>set a. c \<noteq> CHR ''&''"
    using isWord_chars(4) by blast
  from isIdentifier_chars(4) [OF b] have nb: "\<forall>c\<in>set b. c \<noteq> CHR ''&''"
    using isWord_chars(4) by blast
  have "Split_from ''&&'' [] (a @ '' && '' @ b) = Split_from ''&&'' a ('' && '' @ b)"
    using Split_from_skip [OF na, of "''&''" "[]" "'' && '' @ b"] by simp
  also have "\<dots> = (a @ '' '') # Split_from ''&&'' [] ('' '' @ b)"
    by (subst Split_from.simps, simp add: HasPrefix_def)
       (subst Split_from.simps, simp add: HasPrefix_def)
  also have "Split_from ''&&'' [] ('' '' @ b) = Split_from ''&&'' '' '' (b @ [])"
    by (subst Split_from.simps) (simp add: HasPrefix_def)
  also have "\<dots> = ['' '' @ b]"
    using Split_from_skip [OF nb, of "''&''" "'' ''" "[]"] by (simp add: Split_from_Nil)
  finally show "Split (a @ '' && '' @ b) ''&&'' = [a @ '' '', '' '' @ b]"
    by (simp add: Split_def)
qed



lemma replaceCalls_nonwords:
  "\<forall>c\<in>set m. \<not> isWord c \<Longrightarrow> replaceCalls f (m @ s) = m @ replaceCalls f s"
  by (induction m) (simp_all add: replaceCalls_nonword)

lemma replaceBare_nonwords:
  "\<forall>c\<in>set m. \<not> isWord c \<Longrightarrow> m \<noteq> [] \<Longrightarrow> replaceBare f p (m @ s) = m @ replaceBare f False s"
proof (induction m arbitrary: p)
  case Nil
  then show ?case by simp
next
  case (Cons c m)
  show ?case
  proof (cases "m = []")
    case True
    with Cons.prems show ?thesis by (simp add: replaceBare_nonword)
  next
    case False
    with Cons show ?thesis by (simp add: replaceBare_nonword)
  qed
qed

lemma isOperatorText_chars:
  assumes "isOperatorText m"
  shows "m \<noteq> []" "\<forall>c\<in>set m. \<not> isWord c" "\<forall>c\<in>set m. isASCII c" "\<forall>c\<in>set m. c \<noteq> CHR ''#''"
    "\<not> isWord (hd m)" "hd m \<noteq> CHR ''(''" "\<not> isWord (hd (m @ s))" "m @ s \<noteq> []"
    "\<not> HasPrefix (m @ s) ''()''"
proof -
  from assms show ne: "m \<noteq> []" and nw: "\<forall>c\<in>set m. \<not> isWord c" and "\<forall>c\<in>set m. isASCII c"
    and "\<forall>c\<in>set m. c \<noteq> CHR ''#''"
    by (auto simp: isOperatorText_def list_all_iff)
  from assms ne show h: "\<not> isWord (hd m)" and p: "hd m \<noteq> CHR ''(''"
    by (cases m; simp add: isOperatorText_def)+
  from ne h show "\<not> isWord (hd (m @ s))" and "m @ s \<noteq> []" by simp_all
  from ne p show "\<not> HasPrefix (m @ s) ''()''"
    by (cases m) (auto simp: HasPrefix_def)
qed

lemma comments_and_space_bare:
  assumes a: "isIdentifier a" and b: "isIdentifier b" and m: "isOperatorText m"
  shows "TrimSpace (Engine_removeComments (a @ m @ b)) = a @ m @ b"
proof -
  note ca = isIdentifier_chars [OF a] and cb = isIdentifier_chars [OF b]
    and cm = isOperatorText_chars [OF m]
  have "\<forall>c\<in>set (a @ m @ b). c \<noteq> CHR ''#''"
    using ca(4) cb(4) cm(4) isWord_chars(3) by auto
  then have 1: "Engine_removeComments (a @ m @ b) = a @ m @ b"
    by (rule Engine_removeComments_id)
  have "list_all isASCII (a @ m @ b)"
    using ca(4) cb(4) cm(3) isWord_chars(1) by (auto simp: list_all_iff)
  moreover have "a @ m @ b \<noteq> []" using ca(1) by simp
  moreover have "\<not> isSpace (hd (a @ m @ b))" using ca(1,2) isWord_chars(2) by simp
  moreover have "\<not> isSpace (last (a @ m @ b))" using cb(1,3) isWord_chars(2) by simp
  ultimately have "TrimSpace (a @ m @ b) = a @ m @ b" by (rule TrimSpace_id)
  with 1 show ?thesis by simp
qed


lemma replaceCalls_bare:
  assumes a: "isIdentifier a" and b: "isIdentifier b" and m: "isOperatorText m"
  shows "replaceCalls f (a @ m @ b) = a @ m @ b"
proof -
  note cm = isOperatorText_chars [OF m]
  have "replaceCalls f (a @ m @ b) = a @ replaceCalls f (m @ b)"
    using replaceCalls_word [OF a, of "m @ b" f] cm(7,9) [of b] by simp
  also have "replaceCalls f (m @ b) = m @ replaceCalls f b"
    using cm(2) by (rule replaceCalls_nonwords)
  also have "replaceCalls f b = b"
    using replaceCalls_word [OF b, of "[]" f] by (simp add: HasPrefix_def replaceCalls_Nil)
  finally show ?thesis .
qed


lemma replaceBare_bare:
  assumes a: "isIdentifier a" and b: "isIdentifier b" and m: "isOperatorText m"
  shows "replaceBare f False (a @ m @ b)
    = (if isShortName a then f a else a) @ m @ (if isShortName b then f b else b)"
proof -
  note cm = isOperatorText_chars [OF m]
  have "replaceBare f False (a @ m @ b)
      = (if isShortName a then f a else a) @ replaceBare f False (m @ b)"
    using replaceBare_word [OF a, of "m @ b" f] cm(7) [of b] by simp
  also have "replaceBare f False (m @ b) = m @ replaceBare f False b"
    using cm(2,1) by (rule replaceBare_nonwords)
  also have "replaceBare f False b = (if isShortName b then f b else b)"
    using replaceBare_word [OF b, of "[]" f] by (simp add: replaceBare_Nil)
  finally show ?thesis .
qed


lemma operators: "isOperatorText '' && ''" "isOperatorText '' || ''"
  by (simp_all add: isOperatorText_def isWord_def isDigit_def isASCII_def)

lemma substituted_bare:
  assumes a: "isIdentifier a" and b: "isIdentifier b" and m: "isOperatorText m"
  shows "replaceBare (ruleText e) False
      (replaceCalls (ruleText e) (TrimSpace (Engine_removeComments (a @ m @ b))))
    = bareText e a @ m @ bareText e b"
  by (simp only: comments_and_space_bare [OF a b m] replaceCalls_bare [OF a b m]
      replaceBare_bare [OF a b m] bareText_def)



lemma evaluateMainExpression_and:
  assumes a: "isIdentifier a" and b: "isIdentifier b"
  shows "evaluateMainExpression e (a @ '' && '' @ b)
    = Inr (bareText e a \<noteq> ''false'' \<and> bareText e b \<noteq> ''false'')"
proof -
  note ta = bareText_isIdentifier [OF a, of e] and tb = bareText_isIdentifier [OF b, of e]
  show ?thesis
    unfolding evaluateMainExpression_def Let_def substituted_bare [OF a b operators(1)]
    by (simp only: evaluate_segments_and [OF ta tb] if_True)
      (simp add: TrimSpace_segment [OF ta] TrimSpace_segment [OF tb])
qed












lemma replaceBare_after_word: "list_all isWord w \<Longrightarrow> replaceBare f True w = w"
  using replaceBare_after_word_append [of w f "[]"] by (simp add: replaceBare_Nil)

lemma replaceBare_identifier:
  assumes "list_all isWord w" and "w \<noteq> []"
  shows "replaceBare f False w =
    (if hd w = CHR ''r'' \<and> tl w \<noteq> [] \<and> list_all isDigit (tl w) then f w else w)"
proof -
  from assms have "isIdentifier w" by (simp add: isIdentifier_def)
  from replaceBare_word [OF this, of "[]" f] assms(2) show ?thesis
    by (simp add: replaceBare_Nil isShortName_def)
qed

lemma evaluateMainExpression_conjunction:
  assumes "Contains (replaceBare (ruleText e) False
      (replaceCalls (ruleText e) (TrimSpace (Engine_removeComments expr)))) ''&&''"
  shows "evaluateMainExpression e expr =
      Inr (\<not> list_ex (\<lambda>part. TrimSpace part = ''false'')
        (Split (replaceBare (ruleText e) False
          (replaceCalls (ruleText e) (TrimSpace (Engine_removeComments expr)))) ''&&''))"
  using assms by (simp add: evaluateMainExpression_def)

lemma evaluateMainExpression_residual:
  assumes "isIdentifier a" and "\<not> isShortName a" and "a \<noteq> ''false''" and "isShortName b"
  shows "evaluateMainExpression e (a @ '' && '' @ b) = Inr (map_of (ruleResults e) b = Some True)"
proof -
  note ib = isShortName_isIdentifier [OF assms(4)]
  have t: "bareText e a = a" "bareText e b = ruleText e b"
    using assms(2,4) by (simp_all add: bareText_def)
  have r: "ruleText e n \<noteq> ''false'' \<longleftrightarrow> map_of (ruleResults e) n = Some True" for n
    by (simp add: ruleText_cases)
  show ?thesis
    using assms(3) by (simp only: evaluateMainExpression_and [OF assms(1) ib] t r simp_thms)
qed

lemma login_example:
  "evaluateMainExpression (e\<lparr>ruleResults := [(''login'', False), (''r0'', True)]\<rparr>)
      ''login && r0'' = Inr True"
  by (simp add: evaluateMainExpression_def ruleText_def Engine_removeComments_def
      replaceCalls.simps replaceBare.simps string_defs)

text \<open>
  C10. The second substitution replaces a bare identifier only when it is \<open>r\<close> followed
  by digits: wherever an identifier (a maximal non-empty run of word characters) stands
  in an expression, it is replaced by its result text when it has that form and is left
  as it stands otherwise, and the text before and after it is substituted on its own.
  When the substituted expression contains \<open>&&\<close>, the result is false exactly when some
  segment, once trimmed, is the text \<open>false\<close>. So a segment that is a rule name of
  another form counts as true, whatever is recorded for it: for every such name \<open>a\<close>
  other than \<open>false\<close> and every name \<open>b\<close> of the form \<open>r\<close> and digits, \<open>a && b\<close> is the
  result recorded for \<open>b\<close>. With \<open>login\<close> recorded as false and \<open>r0\<close> as true,
  \<open>login && r0\<close> evaluates to true.
\<close>

theorem conjunction_only_false_segments:
  "(list_all isWord w \<and> w \<noteq> [] \<longrightarrow>
      replaceBare f False w =
        (if hd w = CHR ''r'' \<and> tl w \<noteq> [] \<and> list_all isDigit (tl w) then f w else w))
   \<and> ((pre = [] \<or> \<not> isWord (last pre)) \<and> isIdentifier w \<and> (post = [] \<or> \<not> isWord (hd post)) \<longrightarrow>
        replaceBare f False (pre @ w @ post)
          = replaceBare f False pre @ (if isShortName w then f w else w)
              @ replaceBare f False post)
   \<and> replaceBare f False [] = []
   \<and> (Contains (replaceBare (ruleText e) False
          (replaceCalls (ruleText e) (TrimSpace (Engine_removeComments expr)))) ''&&'' \<longrightarrow>
        evaluateMainExpression e expr =
          Inr (\<not> list_ex (\<lambda>part. TrimSpace part = ''false'')
            (Split (replaceBare (ruleText e) False
              (replaceCalls (ruleText e) (TrimSpace (Engine_removeComments expr)))) ''&&'')))
   \<and> (isIdentifier a \<and> isIdentifier b \<longrightarrow>
        evaluateMainExpression e (a @ '' && '' @ b)
          = Inr ((if isShortName a then ruleText e a else a) \<noteq> ''false''
               \<and> (if isShortName b then ruleText e b else b) \<noteq> ''false''))
   \<and> (isIdentifier a \<and> \<not> isShortName a \<and> a \<noteq> ''false'' \<and> isShortName b \<longrightarrow>
        evaluateMainExpression e (a @ '' && '' @ b) = Inr (map_of (ruleResults e) b = Some True))
   \<and> evaluateMainExpression (e\<lparr>ruleResults := [(''login'', False), (''r0'', True)]\<rparr>)
        ''login && r0'' = Inr True"
proof (intro conjI, goal_cases)
  case 1
  show ?case using replaceBare_identifier [of w f] by blast
next
  case 2
  show ?case using replaceBare_token [of pre w post f] by blast
next
  case 3
  show ?case by (rule replaceBare_Nil)
next
  case 4
  show ?case using evaluateMainExpression_conjunction [of e expr] by blast
next
  case 5
  show ?case using evaluateMainExpression_and [of a b e] unfolding bareText_def by blast
next
  case 6
  show ?case using evaluateMainExpression_residual [of a b e] by blast
next
  case 7
  show ?case by (rule login_example)
qed

theorem conjunction_only_false_segments_witness:
  "list_all isWord ''login'' \<and> ''login'' \<noteq> []
   \<and> replaceBare (ruleText loginEngine) False ''login'' = ''login''
   \<and> replaceBare (ruleText loginEngine) False ''r0'' = ''true''
   \<and> \<not> isWord (last ''r1 && '') \<and> isIdentifier ''login'' \<and> \<not> isShortName ''login''
   \<and> \<not> isWord (hd '' && r0'')
   \<and> replaceBare (ruleText loginEngine) False ''r1 && login && r0'' = ''false && login && true''
   \<and> Contains (replaceBare (ruleText loginEngine) False
        (replaceCalls (ruleText loginEngine) (TrimSpace (Engine_removeComments ''login && r0''))))
        ''&&''
   \<and> Split (replaceBare (ruleText loginEngine) False
        (replaceCalls (ruleText loginEngine) (TrimSpace (Engine_removeComments ''login && r0''))))
        ''&&'' = [''login '', '' true'']
   \<and> map_of (ruleResults loginEngine) ''login'' = Some False
   \<and> map_of (ruleResults loginEngine) ''r0'' = Some True
   \<and> ''login'' \<noteq> ''false'' \<and> isShortName ''r0''
   \<and> evaluateMainExpression loginEngine ''login && r0'' = Inr True"
proof -
  let ?f = "ruleText loginEngine"
  have w: "list_all isWord ''login'' \<and> ''login'' \<noteq> []"
    and w2: "list_all isWord ''r0'' \<and> ''r0'' \<noteq> []"
    by (simp_all add: isWord_def isDigit_def)
  have ids: "isIdentifier ''login''" "\<not> isShortName ''login''" "isShortName ''r0''"
    "''login'' \<noteq> ''false''"
    by (simp_all add: isIdentifier_def isShortName_def isWord_def isDigit_def)
  have bounds: "\<not> isWord (last ''r1 && '')" "\<not> isWord (hd '' && r0'')"
    by (simp_all add: isWord_def isDigit_def)
  have rec: "map_of (ruleResults loginEngine) ''login'' = Some False"
    "map_of (ruleResults loginEngine) ''r0'' = Some True"
    by (simp_all add: loginEngine_def)
  have sub: "replaceBare ?f False
        (replaceCalls ?f (TrimSpace (Engine_removeComments ''login && r0'')))
      = ''login && true''"
    by (simp add: loginEngine_def NewEngine_def ruleText_def Engine_removeComments_def
        replaceCalls.simps replaceBare.simps string_defs)
  have c: "Contains ''login && true'' ''&&''"
    by (simp add: string_defs)
  have s: "Split ''login && true'' ''&&'' = [''login '', '' true'']"
    by (simp add: string_defs)
  note i1 = conjunction_only_false_segments [where w = "''login''" and f = ?f
      and pre = "''r1 && ''" and post = "'' && r0''" and e = loginEngine
      and expr = "''login && r0''" and a = "''login''" and b = "''r0''"]
  note i2 = conjunction_only_false_segments [where w = "''r0''" and f = ?f]
  from i1 [THEN conjunct1] w
  have 1: "replaceBare ?f False ''login'' = ''login''"
    by simp
  from i2 [THEN conjunct1] w2
  have 2: "replaceBare ?f False ''r0'' = ''true''"
    by (simp add: isDigit_def ruleText_def loginEngine_def)
  from i1 [THEN conjunct2, THEN conjunct1] bounds ids(1)
  have "replaceBare ?f False (''r1 && '' @ ''login'' @ '' && r0'')
      = replaceBare ?f False ''r1 && '' @ (if isShortName ''login'' then ?f ''login'' else ''login'')
          @ replaceBare ?f False '' && r0''"
    by blast
  then have 3: "replaceBare ?f False ''r1 && login && r0'' = ''false && login && true''"
    using ids(2)
    by (simp add: replaceBare.simps ruleText_def loginEngine_def NewEngine_def string_defs)
  from i1 [THEN conjunct2, THEN conjunct2, THEN conjunct2, THEN conjunct1] c
  have 4: "evaluateMainExpression loginEngine ''login && r0'' = Inr True"
    unfolding sub s by (simp add: string_defs)
  from i1 [THEN conjunct2, THEN conjunct2, THEN conjunct2, THEN conjunct2, THEN conjunct2,
      THEN conjunct1] ids rec(2)
  have 5: "evaluateMainExpression loginEngine (''login'' @ '' && '' @ ''r0'') = Inr True"
    by simp
  from w 1 2 bounds ids 3 c s rec 4 show ?thesis unfolding sub by simp
qed


subsection \<open>Timeouts\<close>

lemma sint_mult_small:
  "- (2 ^ 63) \<le> sint a * sint b \<Longrightarrow> sint a * sint b < 2 ^ 63
    \<Longrightarrow> sint (a * b :: 64 word) = sint a * sint b"
  by (simp add: sint_word_ariths signed_take_bit_int_eq_self)

lemma GetTimeout_value:
  assumes "sint (Rule_Timeout r) \<le> 9223372036"
  shows "sint (GetTimeout r) = max (sint (Rule_Timeout r)) 60 * 1000000000"
proof (cases "sint (Rule_Timeout r) \<le> 0")
  case True
  then show ?thesis
    by (simp add: GetTimeout_def word_sle_eq Second_def max_def)
next
  case False
  with assms have "sint (Rule_Timeout r * Second) = sint (Rule_Timeout r) * 1000000000"
    by (subst sint_mult_small) (simp_all add: Second_def)
  with False show ?thesis
    by (simp add: GetTimeout_def word_sle_eq word_sless_alt Let_def max_def)
      (simp add: Second_def)
qed

lemma GetTimeout_floor: "\<not> word_sless (GetTimeout r) (60 * Second)"
  by (simp add: GetTimeout_def Let_def)

text \<open>
  What the retry loop adds to the trace: every attempt it adds carries the one request
  built from the options it was given.
\<close>

lemma retryLoop_trace:
  assumes "retryLoop E c opts url i lastErr t = Some y"
  shows "\<exists>evs. snd y = t @ evs \<and> (\<forall>q. Attempt q \<in> set evs \<longrightarrow> q = buildRequest c opts url)"
  using assms
proof (induction rule: retryLoop.raw_induct [rotated 1, consumes 1])
  case (1 loop E c opts url i lastErr t y)
  show ?case
  proof (cases "word_sle i (Opts_RetryCount opts)")
    case False
    with 1(2) show ?thesis by auto
  next
    case True
    define t1 where "t1 = (if word_sless 0 i then t @ [Sleep (Second * (i * 2))] else t)"
    define req where "req = buildRequest c opts url"
    have t1: "\<exists>pre. t1 = t @ pre \<and> (\<forall>q. Attempt q \<notin> set pre)"
      by (auto simp: t1_def)
    then obtain pre where pre: "t1 = t @ pre" "\<forall>q. Attempt q \<notin> set pre" by blast
    have rec: "\<exists>evs. snd y = t @ evs \<and> (\<forall>q. Attempt q \<in> set evs \<longrightarrow> q = req)"
      if "loop E c opts url (i + 1) le (t1 @ [Attempt req]) = Some y" for le
    proof -
      from 1(1) [OF that] obtain evs where
        "snd y = (t1 @ [Attempt req]) @ evs" "\<forall>q. Attempt q \<in> set evs \<longrightarrow> q = req"
        unfolding req_def by blast
      with pre have "snd y = t @ (pre @ [Attempt req] @ evs)
          \<and> (\<forall>q. Attempt q \<in> set (pre @ [Attempt req] @ evs) \<longrightarrow> q = req)"
        by auto
      then show ?thesis by blast
    qed
    from 1(2) True have eq:
      "(case transport E (attemptsMade t1) req of
          NewRequestFails \<Rightarrow> loop E c opts url (i + 1) (Some NewRequestError) (t1 @ [Attempt req])
        | DoFails \<Rightarrow> loop E c opts url (i + 1) (Some DoError) (t1 @ [Attempt req])
        | ReadAllFails \<Rightarrow> loop E c opts url (i + 1) (Some ReadBodyError) (t1 @ [Attempt req])
        | Responds r \<Rightarrow> Some (Inr r, t1 @ [Attempt req])) = Some y"
      unfolding t1_def req_def by (simp add: Let_def)
    show ?thesis
    proof (cases "transport E (attemptsMade t1) req")
      case (Responds r)
      with eq have "snd y = t @ (pre @ [Attempt req])" using pre by auto
      moreover have "\<forall>q. Attempt q \<in> set (pre @ [Attempt req]) \<longrightarrow> q = req"
        using pre by auto
      ultimately show ?thesis unfolding req_def by blast
    qed (use eq rec in \<open>auto simp: req_def\<close>)
  qed
qed

lemma executeRule_trace:
  assumes "executeRule E e ruleName rule t = Some (res, e', t')"
  shows "\<exists>evs. t' = t @ evs \<and> (\<forall>q. Attempt q \<in> set evs \<longrightarrow> Req_Timeout q = GetTimeout rule)"
proof -
  from assms obtain r where r: "ExecuteRequest E (httpClient e) (ruleOptions rule) t = Some (r, t')"
    by (auto simp: executeRule_def Let_def split: option.splits sum.splits prod.splits if_splits)
  then obtain url where
    "retryLoop E (httpClient e) (ruleOptions rule) url 0 None t = Some (r, t')"
    using GetTimeout_floor [of rule]
    by (auto simp: ExecuteRequest_def Let_def ruleOptions_def)
  from retryLoop_trace [OF this] obtain evs where evs: "t' = t @ evs"
    "\<forall>q. Attempt q \<in> set evs \<longrightarrow> q = buildRequest (httpClient e) (ruleOptions rule) url"
    by auto
  have "Req_Timeout (buildRequest (httpClient e) (ruleOptions rule) url) = GetTimeout rule"
    by (simp add: buildRequest_def ruleOptions_def)
  with evs show ?thesis by metis
qed

text \<open>
  The retry loop returns. The counter passes the budget after finitely many turns unless
  the budget is the largest \<open>int\<close>; and a turn that the loop takes makes an attempt.
\<close>

lemma sint_succ:
  fixes i :: "64 word"
  assumes "sint i < 2 ^ 63 - 1"
  shows "sint (i + 1) = sint i + 1"
proof -
  have "- (2 ^ 63) \<le> sint i" using sint_ge [of i] by simp
  with assms show ?thesis
    by (simp add: sint_word_ariths signed_take_bit_int_eq_self)
qed

lemma attemptsMade_append [simp]: "attemptsMade (t @ u) = attemptsMade t + attemptsMade u"
  by (simp add: attemptsMade_def)

lemma attemptsMade_simps [simp]:
  "attemptsMade [] = 0"
  "attemptsMade (Attempt q # t) = Suc (attemptsMade t)"
  "attemptsMade (Sleep d # t) = attemptsMade t"
  by (simp_all add: attemptsMade_def)

lemma retryLoop_returns:
  assumes rc: "sint (Opts_RetryCount opts) < 2 ^ 63 - 1"
  shows "\<exists>res evs. retryLoop E c opts url i lastErr t = Some (res, t @ evs)
      \<and> (\<forall>q. Attempt q \<in> set evs \<longrightarrow> q = buildRequest c opts url)
      \<and> (word_sle i (Opts_RetryCount opts) \<longrightarrow> 1 \<le> attemptsMade evs)"
proof (induction "nat (sint (Opts_RetryCount opts) + 1 - sint i)" arbitrary: i lastErr t
    rule: less_induct)
  case less
  let ?req = "buildRequest c opts url"
  show ?case
  proof (cases "word_sle i (Opts_RetryCount opts)")
    case False
    then have "retryLoop E c opts url i lastErr t
        = Some (Inl (RetriesExhausted (Opts_RetryCount opts) lastErr), t @ [])"
      by (subst retryLoop.simps) simp
    with False show ?thesis by fastforce
  next
    case True
    then have le: "sint i \<le> sint (Opts_RetryCount opts)"
      by (simp add: word_sle_eq)
    with rc have succ: "sint (i + 1) = sint i + 1"
      by (intro sint_succ) simp
    define pre where "pre = (if word_sless 0 i then [Sleep (Second * (i * 2))] else [])"
    have t1: "(if word_sless 0 i then t @ [Sleep (Second * (i * 2))] else t) = t @ pre"
      by (simp add: pre_def)
    have pre: "\<forall>q. Attempt q \<notin> set pre" "attemptsMade pre = 0"
      by (simp_all add: pre_def)
    have step: "retryLoop E c opts url i lastErr t =
      (case transport E (attemptsMade (t @ pre)) ?req of
         NewRequestFails \<Rightarrow>
           retryLoop E c opts url (i + 1) (Some NewRequestError) ((t @ pre) @ [Attempt ?req])
       | DoFails \<Rightarrow> retryLoop E c opts url (i + 1) (Some DoError) ((t @ pre) @ [Attempt ?req])
       | ReadAllFails \<Rightarrow>
           retryLoop E c opts url (i + 1) (Some ReadBodyError) ((t @ pre) @ [Attempt ?req])
       | Responds r \<Rightarrow> Some (Inr r, (t @ pre) @ [Attempt ?req]))"
      using True by (subst retryLoop.simps) (simp only: if_True Let_def t1)
    have rec: "\<exists>res evs. retryLoop E c opts url (i + 1) le' ((t @ pre) @ [Attempt ?req])
          = Some (res, t @ evs)
        \<and> (\<forall>q. Attempt q \<in> set evs \<longrightarrow> q = ?req) \<and> 1 \<le> attemptsMade evs" for le'
    proof -
      have "nat (sint (Opts_RetryCount opts) + 1 - sint (i + 1))
          < nat (sint (Opts_RetryCount opts) + 1 - sint i)"
        using le succ by simp
      from less [OF this, of le' "(t @ pre) @ [Attempt ?req]"]
      obtain res evs where r: "retryLoop E c opts url (i + 1) le' ((t @ pre) @ [Attempt ?req])
          = Some (res, ((t @ pre) @ [Attempt ?req]) @ evs)"
        "\<forall>q. Attempt q \<in> set evs \<longrightarrow> q = ?req"
        by blast
      have "((t @ pre) @ [Attempt ?req]) @ evs = t @ (pre @ [Attempt ?req] @ evs)"
        by simp
      moreover have "\<forall>q. Attempt q \<in> set (pre @ [Attempt ?req] @ evs) \<longrightarrow> q = ?req"
        using r(2) pre(1) by auto
      moreover have "1 \<le> attemptsMade (pre @ [Attempt ?req] @ evs)"
        by simp
      ultimately show ?thesis using r(1) by metis
    qed
    show ?thesis
    proof (cases "transport E (attemptsMade (t @ pre)) ?req")
      case (Responds r)
      then have "retryLoop E c opts url i lastErr t = Some (Inr r, t @ (pre @ [Attempt ?req]))"
        unfolding step by simp
      moreover have "\<forall>q. Attempt q \<in> set (pre @ [Attempt ?req]) \<longrightarrow> q = ?req"
        using pre(1) by auto
      moreover have "1 \<le> attemptsMade (pre @ [Attempt ?req])" by simp
      ultimately show ?thesis by blast
    next
      case NewRequestFails
      with rec [of "Some NewRequestError"] show ?thesis unfolding step by auto
    next
      case DoFails
      with rec [of "Some DoError"] show ?thesis unfolding step by auto
    next
      case ReadAllFails
      with rec [of "Some ReadBodyError"] show ?thesis unfolding step by auto
    qed
  qed
qed

lemma GetRetryCount_pos: "word_sle 0 (GetRetryCount rule)"
  by (simp add: GetRetryCount_def word_sle_eq)

lemma GetRetryCount_max:
  "sint (Rule_RetryCount rule) < 2 ^ 63 - 1 \<Longrightarrow> sint (GetRetryCount rule) < 2 ^ 63 - 1"
  by (simp add: GetRetryCount_def)

text \<open>
  \<open>ExecuteRequest\<close> on the options of a rule: its own floor finds the timeout at 60
  seconds or more and leaves the options as they are.
\<close>

lemma ExecuteRequest_ruleOptions:
  "ExecuteRequest E c (ruleOptions rule) t
     = retryLoop E c (ruleOptions rule)
         (TrimSuffix (baseURL c) ''/'' @
            (if \<not> HasPrefix (Rule_Path rule) ''/'' then ''/'' @ Rule_Path rule
             else Rule_Path rule)) 0 None t"
  using GetTimeout_floor [of rule]
  by (simp add: ExecuteRequest_def Let_def ruleOptions_def)

lemma executeRule_returns:
  assumes "sint (Rule_RetryCount rule) < 2 ^ 63 - 1"
  shows "\<exists>res e' evs. executeRule E e ruleName rule t = Some (res, e', t @ evs)
      \<and> 1 \<le> attemptsMade evs
      \<and> (\<forall>q. Attempt q \<in> set evs \<longrightarrow> Req_Timeout q = GetTimeout rule)"
proof -
  have rc: "sint (Opts_RetryCount (ruleOptions rule)) < 2 ^ 63 - 1"
    using GetRetryCount_max [OF assms] by (simp add: ruleOptions_def)
  have pos: "word_sle 0 (Opts_RetryCount (ruleOptions rule))"
    using GetRetryCount_pos [of rule] by (simp add: ruleOptions_def)
  let ?url = "TrimSuffix (baseURL (httpClient e)) ''/'' @
      (if \<not> HasPrefix (Rule_Path rule) ''/'' then ''/'' @ Rule_Path rule else Rule_Path rule)"
  from retryLoop_returns [OF rc, of E "httpClient e" ?url 0 None t] pos
  obtain r evs where run: "ExecuteRequest E (httpClient e) (ruleOptions rule) t = Some (r, t @ evs)"
    and evs: "\<forall>q. Attempt q \<in> set evs \<longrightarrow> q = buildRequest (httpClient e) (ruleOptions rule) ?url"
      "1 \<le> attemptsMade evs"
    unfolding ExecuteRequest_ruleOptions by blast
  have "Req_Timeout (buildRequest (httpClient e) (ruleOptions rule) ?url) = GetTimeout rule"
    by (simp add: buildRequest_def ruleOptions_def)
  with evs have tm: "\<forall>q. Attempt q \<in> set evs \<longrightarrow> Req_Timeout q = GetTimeout rule"
    by metis
  from run have "\<exists>res e'. executeRule E e ruleName rule t = Some (res, e', t @ evs)"
    by (cases r) (simp_all add: executeRule_def Let_def split: option.splits sum.splits)
  with evs(2) tm show ?thesis by blast
qed

lemma executeRule_rule30:
  "executeRule alwaysOK (targetEngine cfg) ''r0'' rule30 []
     = Some (Inr True, targetEngine cfg, [Attempt request0])"
  by (simp add: executeRule_def ExecuteRequest_def retryLoop.simps [of _ _ _ _ 0] Let_def
      ruleOptions_def rule30_def plainRule_def GetTimeout_def GetRetryCount_def GetBody_def
      targetEngine_def NewEngine_def NewHTTPClient_def alwaysOK_def buildRequest_def
      GetStoredCookie_def attemptsMade_def request0_def Second_def word_sle_eq word_sless_alt
      string_defs)

text \<open>
  C5 (amended). For every declared timeout \<open>t\<close> of at most 9223372036 seconds (the
  largest whose count of nanoseconds fits the 64-bit \<open>Duration\<close>), \<open>GetTimeout\<close> is
  \<open>max(t, 60)\<close> seconds; and for every \<open>t\<close> it is at least 60 seconds. The floor of
  \<open>ExecuteRequest\<close> therefore changes nothing: \<open>ExecuteRequest\<close> runs the retry loop on
  the options of the rule as they are, and the request that the loop builds from them
  carries the timeout that \<open>GetTimeout\<close> gave. Unless the retry count is the largest
  \<open>int\<close>, \<open>executeRule\<close> returns, after at least one attempt, and every attempt carries
  that timeout; with any retry count, so does every attempt of a run that returns.
  \<open>t = 0\<close> and \<open>t = 30\<close> give 60 seconds, \<open>t = 90\<close> gives 90 seconds.
\<close>

theorem timeout_floor:
  "(sint (Rule_Timeout rule) \<le> 9223372036 \<longrightarrow>
      sint (GetTimeout rule) = max (sint (Rule_Timeout rule)) 60 * 1000000000)
   \<and> 60 * 1000000000 \<le> sint (GetTimeout rule)
   \<and> (\<exists>url. ExecuteRequest E (httpClient e) (ruleOptions rule) t
          = retryLoop E (httpClient e) (ruleOptions rule) url 0 None t)
   \<and> Req_Timeout (buildRequest (httpClient e) (ruleOptions rule) url) = GetTimeout rule
   \<and> (sint (Rule_RetryCount rule) < 2 ^ 63 - 1 \<longrightarrow>
        (\<exists>res e' evs. executeRule E e ruleName rule t = Some (res, e', t @ evs)
           \<and> 1 \<le> attemptsMade evs
           \<and> (\<forall>q. Attempt q \<in> set evs \<longrightarrow> Req_Timeout q = GetTimeout rule)))
   \<and> (executeRule E e ruleName rule t = Some (res, e', t') \<longrightarrow>
        (\<exists>evs. t' = t @ evs
           \<and> (\<forall>q. Attempt q \<in> set evs \<longrightarrow> Req_Timeout q = GetTimeout rule)))
   \<and> sint (GetTimeout (rule\<lparr>Rule_Timeout := 0\<rparr>)) = 60 * 1000000000
   \<and> sint (GetTimeout (rule\<lparr>Rule_Timeout := 30\<rparr>)) = 60 * 1000000000
   \<and> sint (GetTimeout (rule\<lparr>Rule_Timeout := 90\<rparr>)) = 90 * 1000000000"
proof (intro conjI impI)
  assume "sint (Rule_Timeout rule) \<le> 9223372036"
  then show "sint (GetTimeout rule) = max (sint (Rule_Timeout rule)) 60 * 1000000000"
    by (rule GetTimeout_value)
next
  show "60 * 1000000000 \<le> sint (GetTimeout rule)"
    using GetTimeout_floor [of rule] by (simp add: word_sless_alt Second_def)
next
  show "\<exists>url. ExecuteRequest E (httpClient e) (ruleOptions rule) t
      = retryLoop E (httpClient e) (ruleOptions rule) url 0 None t"
    using ExecuteRequest_ruleOptions by blast
next
  show "Req_Timeout (buildRequest (httpClient e) (ruleOptions rule) url) = GetTimeout rule"
    by (simp add: buildRequest_def ruleOptions_def)
next
  assume "sint (Rule_RetryCount rule) < 2 ^ 63 - 1"
  then show "\<exists>res e' evs. executeRule E e ruleName rule t = Some (res, e', t @ evs)
      \<and> 1 \<le> attemptsMade evs
      \<and> (\<forall>q. Attempt q \<in> set evs \<longrightarrow> Req_Timeout q = GetTimeout rule)"
    by (rule executeRule_returns)
next
  assume "executeRule E e ruleName rule t = Some (res, e', t')"
  then show "\<exists>evs. t' = t @ evs
      \<and> (\<forall>q. Attempt q \<in> set evs \<longrightarrow> Req_Timeout q = GetTimeout rule)"
    by (rule executeRule_trace)
qed (simp_all add: GetTimeout_def Second_def word_sle_eq word_sless_alt)

theorem timeout_floor_witness:
  "sint (Rule_Timeout rule30) \<le> 9223372036
   \<and> sint (GetTimeout rule30) = 60 * 1000000000
   \<and> sint (Rule_RetryCount rule30) < 2 ^ 63 - 1
   \<and> executeRule alwaysOK (targetEngine \<lparr>Cfg_Rules = Map.empty, Cfg_Expression = []\<rparr>) ''r0''
        rule30 []
      = Some (Inr True, targetEngine \<lparr>Cfg_Rules = Map.empty, Cfg_Expression = []\<rparr>,
          [Attempt request0])
   \<and> attemptsMade [Attempt request0] = 1
   \<and> sint (Req_Timeout request0) = 60 * 1000000000"
proof -
  have small: "sint (Rule_Timeout rule30) \<le> 9223372036"
    and rc: "sint (Rule_RetryCount rule30) < 2 ^ 63 - 1"
    by (simp_all add: rule30_def plainRule_def)
  note run = executeRule_rule30 [of "\<lparr>Cfg_Rules = Map.empty, Cfg_Expression = []\<rparr>"]
  note inst = timeout_floor [of rule30 alwaysOK
      "targetEngine \<lparr>Cfg_Rules = Map.empty, Cfg_Expression = []\<rparr>" "[]" _ "''r0''" "Inr True"
      "targetEngine \<lparr>Cfg_Rules = Map.empty, Cfg_Expression = []\<rparr>" "[Attempt request0]"]
  from inst small have v: "sint (GetTimeout rule30) = 60 * 1000000000"
    by (simp add: rule30_def plainRule_def)
  from inst rc run have "\<exists>evs. [Attempt request0] = evs \<and> 1 \<le> attemptsMade evs
      \<and> (\<forall>q. Attempt q \<in> set evs \<longrightarrow> Req_Timeout q = GetTimeout rule30)"
    by simp
  then have "Req_Timeout request0 = GetTimeout rule30"
    by simp
  with v small rc run show ?thesis by simp
qed

text \<open>
  The claim as stated, for every \<open>t\<close>, fails at \<open>t = 9223372037\<close>: the product with
  \<open>time.Second\<close> wraps around to a negative duration, and \<open>GetTimeout\<close> returns 60
  seconds.
\<close>

theorem timeout_floor_counterexample:
  "sint (Rule_Timeout rule9223372037) = 9223372037
   \<and> sint (GetTimeout rule9223372037) = 60 * 1000000000
   \<and> sint (GetTimeout rule9223372037)
       \<noteq> max (sint (Rule_Timeout rule9223372037)) 60 * 1000000000"
  by (simp add: rule9223372037_def plainRule_def GetTimeout_def Second_def word_sle_eq
      word_sless_alt)

subsection \<open>The retry loop\<close>

lemma retryLoop_budget_1:
  assumes "Opts_RetryCount opts = 1"
  shows "(\<exists>r. retryLoop E c opts url 0 None t = Some (Inr r, t @ [Attempt (buildRequest c opts url)])
            \<and> transport E (attemptsMade t) (buildRequest c opts url) = Responds r)
       \<or> (\<exists>res. retryLoop E c opts url 0 None t
              = Some (res, t @ [Attempt (buildRequest c opts url), Sleep (2 * Second),
                  Attempt (buildRequest c opts url)])
            \<and> failed (transport E (attemptsMade t) (buildRequest c opts url)))"
proof (cases "transport E (attemptsMade t) (buildRequest c opts url)")
  case (Responds r)
  with assms show ?thesis
    by (simp add: retryLoop.simps [of _ _ _ _ 0] word_sle_eq)
next
  case NewRequestFails
  with assms show ?thesis
    by (simp add: retryLoop.simps [of _ _ _ _ 0] retryLoop.simps [of _ _ _ _ 1]
        retryLoop.simps [of _ _ _ _ 2] word_sle_eq word_sless_alt Let_def
        split: attempt.splits)
next
  case DoFails
  with assms show ?thesis
    by (simp add: retryLoop.simps [of _ _ _ _ 0] retryLoop.simps [of _ _ _ _ 1]
        retryLoop.simps [of _ _ _ _ 2] word_sle_eq word_sless_alt Let_def
        split: attempt.splits)
next
  case ReadAllFails
  with assms show ?thesis
    by (simp add: retryLoop.simps [of _ _ _ _ 0] retryLoop.simps [of _ _ _ _ 1]
        retryLoop.simps [of _ _ _ _ 2] word_sle_eq word_sless_alt Let_def
        split: attempt.splits)
qed

text \<open>
  C4 (amended). For every rule whose declared retry count is at most 0, the retry budget
  is 1 and \<open>ExecuteRequest\<close> returns after one attempt or after two: one attempt when
  the first is answered, and otherwise a second attempt after a wait of 2 seconds. It
  never makes zero attempts.
\<close>

theorem retry_count_floor:
  assumes "word_sle (Rule_RetryCount rule) 0"
  shows "GetRetryCount rule = 1
    \<and> (\<exists>q.
         (\<exists>r. ExecuteRequest E c (ruleOptions rule) t = Some (Inr r, t @ [Attempt q])
                \<and> transport E (attemptsMade t) q = Responds r)
         \<or> (\<exists>res. ExecuteRequest E c (ruleOptions rule) t
                = Some (res, t @ [Attempt q, Sleep (2 * Second), Attempt q])
              \<and> failed (transport E (attemptsMade t) q)))"
proof
  from assms show rc: "GetRetryCount rule = 1"
    by (simp add: GetRetryCount_def)
  define opts where "opts = (if word_sless (Opts_Timeout (ruleOptions rule)) (60 * Second)
      then (ruleOptions rule)\<lparr>Opts_Timeout := 60 * Second\<rparr> else ruleOptions rule)"
  define url where "url = TrimSuffix (baseURL c) ''/'' @
      (if \<not> HasPrefix (Opts_Path (ruleOptions rule)) ''/''
       then ''/'' @ Opts_Path (ruleOptions rule) else Opts_Path (ruleOptions rule))"
  have "Opts_RetryCount opts = 1"
    using rc by (simp add: opts_def ruleOptions_def)
  from retryLoop_budget_1 [OF this, of E c url t]
  have "(\<exists>r. ExecuteRequest E c (ruleOptions rule) t
              = Some (Inr r, t @ [Attempt (buildRequest c opts url)])
            \<and> transport E (attemptsMade t) (buildRequest c opts url) = Responds r)
       \<or> (\<exists>res. ExecuteRequest E c (ruleOptions rule) t
              = Some (res, t @ [Attempt (buildRequest c opts url), Sleep (2 * Second),
                  Attempt (buildRequest c opts url)])
            \<and> failed (transport E (attemptsMade t) (buildRequest c opts url)))"
    unfolding ExecuteRequest_def Let_def opts_def url_def by simp
  then show "\<exists>q.
      (\<exists>r. ExecuteRequest E c (ruleOptions rule) t = Some (Inr r, t @ [Attempt q])
             \<and> transport E (attemptsMade t) q = Responds r)
      \<or> (\<exists>res. ExecuteRequest E c (ruleOptions rule) t
             = Some (res, t @ [Attempt q, Sleep (2 * Second), Attempt q])
           \<and> failed (transport E (attemptsMade t) q))"
    by blast
qed

theorem retry_count_floor_witness:
  "word_sle (Rule_RetryCount (plainRule ''/'')) 0
   \<and> GetRetryCount (plainRule ''/'') = 1
   \<and> ExecuteRequest alwaysOK (NewHTTPClient ''http://target/'') (ruleOptions (plainRule ''/'')) []
       = Some (Inr okResponse, [Attempt request0])"
proof -
  have le: "word_sle (Rule_RetryCount (plainRule ''/'')) 0"
    by (simp add: plainRule_def)
  have run: "ExecuteRequest alwaysOK (NewHTTPClient ''http://target/'')
      (ruleOptions (plainRule ''/'')) [] = Some (Inr okResponse, [Attempt request0])"
    by (simp add: ExecuteRequest_def retryLoop.simps [of _ _ _ _ 0] Let_def
      ruleOptions_def plainRule_def GetTimeout_def GetRetryCount_def GetBody_def
      NewHTTPClient_def alwaysOK_def buildRequest_def
      GetStoredCookie_def attemptsMade_def request0_def Second_def word_sle_eq word_sless_alt
      string_defs)
  from retry_count_floor [OF le, of alwaysOK "NewHTTPClient ''http://target/''" "[]"]
  have "GetRetryCount (plainRule ''/'') = 1" by simp
  with le run show ?thesis by simp
qed

text \<open>
  The claim as stated (exactly one attempt, no retry) fails for a rule with retry count 0
  on a network that answers nothing: \<open>executeRule\<close> makes two attempts.
\<close>

theorem retry_count_floor_counterexample:
  "word_sle (Rule_RetryCount (plainRule ''/'')) 0
   \<and> executeRule neverAnswers (targetEngine \<lparr>Cfg_Rules = Map.empty, Cfg_Expression = []\<rparr>)
        ''r0'' (plainRule ''/'') []
      = Some (Inl (HTTPRequestFailed (RetriesExhausted 1 (Some DoError))),
          targetEngine \<lparr>Cfg_Rules = Map.empty, Cfg_Expression = []\<rparr>,
          [Attempt request0, Sleep 2000000000, Attempt request0])
   \<and> attemptsMade [Attempt request0, Sleep 2000000000, Attempt request0] = 2"
  by (simp add: executeRule_def ExecuteRequest_def retryLoop.simps [of _ _ _ _ 0]
      retryLoop.simps [of _ _ _ _ 1] retryLoop.simps [of _ _ _ _ 2] Let_def
      ruleOptions_def plainRule_def GetTimeout_def GetRetryCount_def GetBody_def
      targetEngine_def NewEngine_def NewHTTPClient_def neverAnswers_def buildRequest_def
      GetStoredCookie_def attemptsMade_def request0_def Second_def word_sle_eq word_sless_alt
      string_defs)

lemma sint_of_nat_small: "n < 2 ^ 63 \<Longrightarrow> sint (of_nat n :: 64 word) = int n"
  by (simp add: signed_of_nat signed_take_bit_int_eq_self)

text \<open>One turn of the loop at counter \<open>i\<close>, for a budget \<open>N\<close> that the counter has not passed.\<close>

lemma retryLoop_step:
  fixes N i :: nat
  assumes N: "N < 2 ^ 63" and rc: "Opts_RetryCount opts = of_nat N" and i: "i \<le> N"
  shows "retryLoop E c opts url (of_nat i) lastErr t =
    (case transport E (attemptsMade t) (buildRequest c opts url) of
       NewRequestFails \<Rightarrow> retryLoop E c opts url (of_nat (Suc i)) (Some NewRequestError)
         (t @ (if 0 < i then [Sleep (Second * (of_nat i * 2))] else [])
            @ [Attempt (buildRequest c opts url)])
     | DoFails \<Rightarrow> retryLoop E c opts url (of_nat (Suc i)) (Some DoError)
         (t @ (if 0 < i then [Sleep (Second * (of_nat i * 2))] else [])
            @ [Attempt (buildRequest c opts url)])
     | ReadAllFails \<Rightarrow> retryLoop E c opts url (of_nat (Suc i)) (Some ReadBodyError)
         (t @ (if 0 < i then [Sleep (Second * (of_nat i * 2))] else [])
            @ [Attempt (buildRequest c opts url)])
     | Responds r \<Rightarrow> Some (Inr r,
         t @ (if 0 < i then [Sleep (Second * (of_nat i * 2))] else [])
            @ [Attempt (buildRequest c opts url)]))"
proof -
  from N i have si: "sint (of_nat i :: 64 word) = int i" and sN: "sint (of_nat N :: 64 word) = int N"
    by (simp_all add: sint_of_nat_small)
  have le: "word_sle (of_nat i :: 64 word) (Opts_RetryCount opts)"
    using i by (simp add: rc word_sle_eq si sN)
  have pos: "word_sless 0 (of_nat i :: 64 word) \<longleftrightarrow> 0 < i"
    by (simp add: word_sless_alt si)
  have suc: "(of_nat i :: 64 word) + 1 = of_nat (Suc i)"
    by simp
  show ?thesis
    by (subst retryLoop.simps) (simp add: le pos suc Let_def split: attempt.splits)
qed

text \<open>
  The loop from counter \<open>i\<close> on, when the attempts before the last of the budget fail and
  the last is answered.
\<close>

lemma retryLoop_retries:
  fixes N i :: nat
  assumes "N < 2 ^ 63" and "Opts_RetryCount opts = of_nat N" and "i \<le> N"
    and "\<forall>j < N - i. failed (transport E (attemptsMade t + j) (buildRequest c opts url))"
    and "transport E (attemptsMade t + (N - i)) (buildRequest c opts url) = Responds r"
  shows "retryLoop E c opts url (of_nat i) lastErr t =
    Some (Inr r, t @ concat (map (\<lambda>j. (if 0 < j then [Sleep (Second * (of_nat j * 2))] else [])
                                      @ [Attempt (buildRequest c opts url)]) [i..<Suc N]))"
  using assms
proof (induction "N - i" arbitrary: i t lastErr)
  case 0
  then have "N - i = 0" and "[i..<Suc N] = [i]" by simp_all
  with "0.prems"(5) show ?case
    unfolding retryLoop_step [OF "0.prems"(1,2,3)] by simp
next
  case (Suc m)
  let ?q = "buildRequest c opts url"
  let ?f = "\<lambda>j. (if 0 < j then [Sleep (Second * (of_nat j * 2))] else []) @ [Attempt ?q]"
  from Suc.hyps(2) have lt: "i < N" by simp
  have fails: "failed (transport E (attemptsMade t) ?q)"
    using Suc.prems(4) lt by (metis add.right_neutral zero_less_diff)
  have am: "attemptsMade (t @ ?f i) = Suc (attemptsMade t)"
    by simp
  have rec: "retryLoop E c opts url (of_nat (Suc i)) le (t @ ?f i)
      = Some (Inr r, (t @ ?f i) @ concat (map ?f [Suc i..<Suc N]))" for le
  proof (rule Suc.hyps(1))
    show "m = N - Suc i" using Suc.hyps(2) by simp
    show "N < 2 ^ 63" by (rule Suc.prems(1))
    show "Opts_RetryCount opts = of_nat N" by (rule Suc.prems(2))
    show "Suc i \<le> N" using lt by simp
    show "\<forall>j<N - Suc i. failed (transport E (attemptsMade (t @ ?f i) + j) ?q)"
    proof (intro allI impI)
      fix j assume "j < N - Suc i"
      then have "Suc j < N - i" by simp
      with Suc.prems(4) have "failed (transport E (attemptsMade t + Suc j) ?q)" by blast
      moreover have "attemptsMade (t @ ?f i) + j = attemptsMade t + Suc j"
        unfolding am by arith
      ultimately show "failed (transport E (attemptsMade (t @ ?f i) + j) ?q)"
        by (simp only:)
    qed
    have "attemptsMade (t @ ?f i) + (N - Suc i) = attemptsMade t + (N - i)"
      unfolding am using lt by arith
    then show "transport E (attemptsMade (t @ ?f i) + (N - Suc i)) ?q = Responds r"
      using Suc.prems(5) by (simp only:)
  qed
  have unfold: "(t @ ?f i) @ concat (map ?f [Suc i..<Suc N]) = t @ concat (map ?f [i..<Suc N])"
    using lt by (simp add: upt_conv_Cons)
  from fails obtain le where
    "retryLoop E c opts url (of_nat i) lastErr t
       = retryLoop E c opts url (of_nat (Suc i)) le (t @ ?f i)"
    unfolding retryLoop_step [OF Suc.prems(1,2,3)]
    by (cases "transport E (attemptsMade t) ?q") auto
  then show ?case
    by (simp only: rec unfold)
qed

lemma of_nat_nat_sint:
  fixes w :: "64 word"
  assumes "0 \<le> sint w"
  shows "of_nat (nat (sint w)) = w" and "nat (sint w) < 2 ^ 63"
proof -
  from assms show "of_nat (nat (sint w)) = w"
    by (simp add: of_nat_nat)
  have "sint w < 2 ^ 63"
    using sint_lt [of w] by simp
  with assms show "nat (sint w) < 2 ^ 63"
    by (simp add: nat_less_iff)
qed

lemma ExecuteRequest_retries:
  assumes nonneg: "0 \<le> sint (Opts_RetryCount opts)"
    and fails: "\<forall>j < nat (sint (Opts_RetryCount opts)).
        \<forall>q. failed (transport E (attemptsMade t + j) q)"
    and responds: "\<forall>q. transport E (attemptsMade t + nat (sint (Opts_RetryCount opts))) q
        = Responds r"
  shows "\<exists>q. ExecuteRequest E c opts t =
      Some (Inr r, t @ concat (map (\<lambda>j. (if 0 < j then [Sleep (Second * (of_nat j * 2))] else [])
          @ [Attempt q]) [0..<Suc (nat (sint (Opts_RetryCount opts)))]))"
proof -
  define N where "N = nat (sint (Opts_RetryCount opts))"
  define opts' where "opts' = (if word_sless (Opts_Timeout opts) (60 * Second)
      then opts\<lparr>Opts_Timeout := 60 * Second\<rparr> else opts)"
  define url where "url = TrimSuffix (baseURL c) ''/'' @
      (if \<not> HasPrefix (Opts_Path opts) ''/'' then ''/'' @ Opts_Path opts else Opts_Path opts)"
  have rc: "Opts_RetryCount opts' = of_nat N" and N: "N < 2 ^ 63"
    using of_nat_nat_sint [OF nonneg] by (simp_all add: opts'_def N_def)
  have "retryLoop E c opts' url (of_nat 0) None t =
      Some (Inr r, t @ concat (map (\<lambda>j. (if 0 < j then [Sleep (Second * (of_nat j * 2))] else [])
          @ [Attempt (buildRequest c opts' url)]) [0..<Suc N]))"
    using fails responds by (intro retryLoop_retries [OF N rc]) (simp_all add: N_def)
  then have "ExecuteRequest E c opts t =
      Some (Inr r, t @ concat (map (\<lambda>j. (if 0 < j then [Sleep (Second * (of_nat j * 2))] else [])
          @ [Attempt (buildRequest c opts' url)]) [0..<Suc N]))"
    unfolding ExecuteRequest_def Let_def opts'_def url_def by simp
  then show ?thesis unfolding N_def by blast
qed

lemma ExecuteRequest_lastWait:
  assumes nonneg: "0 < sint (Opts_RetryCount opts)"
    and fails: "\<forall>j < nat (sint (Opts_RetryCount opts)).
        \<forall>q. failed (transport E (attemptsMade t + j) q)"
    and responds: "\<forall>q. transport E (attemptsMade t + nat (sint (Opts_RetryCount opts))) q
        = Responds r"
  shows "map_option (apsnd lastWait) (ExecuteRequest E c opts t)
    = Some (Inr r, Sleep (Second * (Opts_RetryCount opts * 2)))"
proof -
  define N where "N = nat (sint (Opts_RetryCount opts))"
  from nonneg have N: "0 < N" "of_nat N = Opts_RetryCount opts"
    using of_nat_nat_sint(1) [of "Opts_RetryCount opts"] by (simp_all add: N_def)
  from ExecuteRequest_retries [OF _ fails responds, of c] nonneg
  obtain q where "ExecuteRequest E c opts t =
      Some (Inr r, t @ concat (map (\<lambda>j. (if 0 < j then [Sleep (Second * (of_nat j * 2))] else [])
          @ [Attempt q]) [0..<Suc N]))"
    unfolding N_def by auto
  moreover have "lastWait (t @ concat (map (\<lambda>j. (if 0 < j then [Sleep (Second * (of_nat j * 2))]
      else []) @ [Attempt q]) [0..<Suc N])) = Sleep (Second * (of_nat N * 2))"
    using N(1) by (simp add: lastWait_def butlast_append)
  ultimately show ?thesis
    by (simp add: N(2))
qed

lemma sint_backoff:
  assumes "j \<le> 4611686018"
  shows "sint (Second * (of_nat j * 2) :: 64 word) = 2 * int j * 1000000000"
proof -
  from assms have j: "sint (of_nat j :: 64 word) = int j"
    by (intro sint_of_nat_small) simp
  from assms have "sint (of_nat j * 2 :: 64 word) = int j * 2"
    by (subst sint_mult_small) (simp_all add: j)
  with assms show ?thesis
    by (subst sint_mult_small) (simp_all add: Second_def)
qed

text \<open>
  C6 (amended). For every retry budget \<open>n \<ge> 0\<close>, if the first \<open>n\<close> attempts fail and
  attempt \<open>n + 1\<close> is answered, \<open>ExecuteRequest\<close> returns that response, and what it does
  is: attempt 0 at once, and for each \<open>i\<close> from 1 to \<open>n\<close> a call of \<open>time.Sleep\<close> with
  \<open>time.Second * Duration(i*2)\<close> followed by attempt \<open>i\<close>. For \<open>n\<close> up to 4611686018
  these durations are \<open>2, 4, ..., 2n\<close> seconds.
\<close>

theorem backoff_schedule:
  assumes "0 \<le> sint (Opts_RetryCount opts)"
    and "\<forall>j < nat (sint (Opts_RetryCount opts)). \<forall>q. failed (transport E (attemptsMade t + j) q)"
    and "\<forall>q. transport E (attemptsMade t + nat (sint (Opts_RetryCount opts))) q = Responds r"
  shows "(\<exists>q. ExecuteRequest E c opts t =
      Some (Inr r, t @ concat (map (\<lambda>j. (if 0 < j then [Sleep (Second * (of_nat j * 2))] else [])
          @ [Attempt q]) [0..<Suc (nat (sint (Opts_RetryCount opts)))])))
    \<and> (sint (Opts_RetryCount opts) \<le> 4611686018 \<longrightarrow>
         (\<forall>j. 1 \<le> j \<and> j \<le> nat (sint (Opts_RetryCount opts)) \<longrightarrow>
            sint (Second * (of_nat j * 2) :: 64 word) = 2 * int j * 1000000000))"
proof (intro conjI impI allI)
  show "\<exists>q. ExecuteRequest E c opts t =
      Some (Inr r, t @ concat (map (\<lambda>j. (if 0 < j then [Sleep (Second * (of_nat j * 2))] else [])
          @ [Attempt q]) [0..<Suc (nat (sint (Opts_RetryCount opts)))]))"
    using assms by (rule ExecuteRequest_retries)
next
  fix j :: nat
  assume "sint (Opts_RetryCount opts) \<le> 4611686018"
    and "1 \<le> j \<and> j \<le> nat (sint (Opts_RetryCount opts))"
  then have "j \<le> 4611686018" by linarith
  then show "sint (Second * (of_nat j * 2) :: 64 word) = 2 * int j * 1000000000"
    by (rule sint_backoff)
qed

theorem backoff_schedule_witness:
  "0 \<le> sint (Opts_RetryCount (ruleOptions (retryRule 2)))
   \<and> sint (Opts_RetryCount (ruleOptions (retryRule 2))) \<le> 4611686018
   \<and> failed (transport (respondsAfter 2) 0 request0)
   \<and> failed (transport (respondsAfter 2) 1 request0)
   \<and> transport (respondsAfter 2) 2 request0 = Responds okResponse
   \<and> ExecuteRequest (respondsAfter 2) (NewHTTPClient ''http://target/'')
        (ruleOptions (retryRule 2)) []
      = Some (Inr okResponse,
          [Attempt request0, Sleep (Second * 2), Attempt request0, Sleep (Second * 4),
           Attempt request0])
   \<and> sint (Second * 2) = 2 * 1000000000
   \<and> sint (Second * 4) = 4 * 1000000000"
proof -
  have rc: "Opts_RetryCount (ruleOptions (retryRule 2)) = 2"
    by (simp add: ruleOptions_def retryRule_def plainRule_def GetRetryCount_def word_sle_eq)
  have h1: "0 \<le> sint (Opts_RetryCount (ruleOptions (retryRule 2)))"
    and h1': "sint (Opts_RetryCount (ruleOptions (retryRule 2))) \<le> 4611686018"
    by (simp_all add: rc)
  have h2: "\<forall>j < nat (sint (Opts_RetryCount (ruleOptions (retryRule 2)))).
      \<forall>q. failed (transport (respondsAfter 2) (attemptsMade [] + j) q)"
    by (simp add: rc respondsAfter_def)
  have h3: "\<forall>q. transport (respondsAfter 2)
      (attemptsMade [] + nat (sint (Opts_RetryCount (ruleOptions (retryRule 2))))) q
      = Responds okResponse"
    by (simp add: rc respondsAfter_def)
  have run: "ExecuteRequest (respondsAfter 2) (NewHTTPClient ''http://target/'')
        (ruleOptions (retryRule 2)) []
      = Some (Inr okResponse,
          [Attempt request0, Sleep (Second * 2), Attempt request0, Sleep (Second * 4),
           Attempt request0])"
    by (simp add: ExecuteRequest_def retryLoop.simps [of _ _ _ _ 0]
      retryLoop.simps [of _ _ _ _ 1] retryLoop.simps [of _ _ _ _ 2] Let_def
      ruleOptions_def retryRule_def plainRule_def GetTimeout_def GetRetryCount_def GetBody_def
      NewHTTPClient_def respondsAfter_def buildRequest_def
      GetStoredCookie_def request0_def Second_def word_sle_eq word_sless_alt
      string_defs)
  from backoff_schedule [OF h1 h2 h3, of "NewHTTPClient ''http://target/''"] h1'
  have "\<forall>j. 1 \<le> j \<and> j \<le> nat (sint (Opts_RetryCount (ruleOptions (retryRule 2)))) \<longrightarrow>
      sint (Second * (of_nat j * 2) :: 64 word) = 2 * int j * 1000000000"
    by blast
  then have "1 \<le> (1::nat) \<and> (1::nat) \<le> nat (sint (Opts_RetryCount (ruleOptions (retryRule 2))))
        \<longrightarrow> sint (Second * (of_nat 1 * 2) :: 64 word) = 2 * int 1 * 1000000000"
    and "1 \<le> (2::nat) \<and> (2::nat) \<le> nat (sint (Opts_RetryCount (ruleOptions (retryRule 2))))
        \<longrightarrow> sint (Second * (of_nat 2 * 2) :: 64 word) = 2 * int 2 * 1000000000"
    by blast+
  then have d: "sint (Second * 2) = 2 * 1000000000" "sint (Second * 4) = 4 * 1000000000"
    by (simp_all add: rc)
  have f: "failed (transport (respondsAfter 2) 0 request0)"
    "failed (transport (respondsAfter 2) 1 request0)"
    "transport (respondsAfter 2) 2 request0 = Responds okResponse"
    by (simp_all add: respondsAfter_def)
  from h1 h1' f run d show ?thesis by blast
qed

text \<open>
  The claim as stated, for every \<open>n\<close>, fails at \<open>n = 4611686019\<close>: the duration of the
  last wait wraps around, and \<open>time.Sleep\<close> is called with a negative duration (it
  returns at once) where the claim has a wait of 9223372038 seconds.
\<close>

theorem backoff_schedule_counterexample:
  "sint (Opts_RetryCount (ruleOptions (retryRule 4611686019))) = 4611686019
   \<and> map_option (apsnd lastWait)
        (ExecuteRequest (respondsAfter 4611686019) (NewHTTPClient ''http://target/'')
          (ruleOptions (retryRule 4611686019)) [])
      = Some (Inr okResponse, Sleep (- 9223372035709551616))
   \<and> sint (- 9223372035709551616 :: 64 word) = - 9223372035709551616"
proof -
  have rc: "Opts_RetryCount (ruleOptions (retryRule 4611686019)) = 4611686019"
    by (simp add: ruleOptions_def retryRule_def plainRule_def GetRetryCount_def word_sle_eq)
  have h1: "0 < sint (Opts_RetryCount (ruleOptions (retryRule 4611686019)))"
    by (simp add: rc)
  have h2: "\<forall>j < nat (sint (Opts_RetryCount (ruleOptions (retryRule 4611686019)))).
      \<forall>q. failed (transport (respondsAfter 4611686019) (attemptsMade [] + j) q)"
    by (simp add: rc respondsAfter_def)
  have h3: "\<forall>q. transport (respondsAfter 4611686019)
      (attemptsMade [] + nat (sint (Opts_RetryCount (ruleOptions (retryRule 4611686019))))) q
      = Responds okResponse"
    by (simp add: rc respondsAfter_def)
  have "Second * (4611686019 * 2) = (- 9223372035709551616 :: 64 word)"
    by (simp add: Second_def)
  with ExecuteRequest_lastWait [OF h1 h2 h3, of "NewHTTPClient ''http://target/''"]
  show ?thesis by (simp add: rc)
qed

subsection \<open>The rules of a run\<close>

lemma ruleOptions_ExtractCookie [simp]:
  "ruleOptions (rule\<lparr>Rule_ExtractCookie := x\<rparr>) = ruleOptions rule"
  by (simp add: ruleOptions_def GetTimeout_def GetRetryCount_def GetBody_def)

text \<open>
  C9. For a rule with an extraction expression, when the request is answered and
  \<open>ExtractCookie\<close> fails on the response, \<open>executeRule\<close> returns what it returns for the
  same rule without the extraction expression, and returns the engine as it was, the
  stored cookie included. If the rule has no validation expression its outcome is true,
  and the loop of \<open>Execute\<close> goes on to the remaining rules with that outcome recorded.
\<close>

theorem extraction_failure_swallowed:
  assumes "Rule_ExtractCookie rule \<noteq> []"
    and "ExecuteRequest E (httpClient e) (ruleOptions rule) t = Some (Inr response, t')"
    and "ExtractCookie E (Rule_ExtractCookie rule) (Some response) = Inl err"
  shows "executeRule E e ruleName rule t
        = executeRule E e ruleName (rule\<lparr>Rule_ExtractCookie := []\<rparr>) t
    \<and> (\<exists>res. executeRule E e ruleName rule t = Some (res, e, t'))
    \<and> (Rule_CookieExpression rule = [] \<and> Rule_Expression rule = [] \<longrightarrow>
         executeRule E e ruleName rule t = Some (Inr True, e, t')
         \<and> (Cfg_Rules (config e) ruleName = Some rule \<longrightarrow>
              executeRules E e (ruleName # rest) t
                = executeRules E (e\<lparr>ruleResults := AList.update ruleName True (ruleResults e)\<rparr>)
                    rest t'))"
proof (intro conjI impI)
  show "executeRule E e ruleName rule t
      = executeRule E e ruleName (rule\<lparr>Rule_ExtractCookie := []\<rparr>) t"
    using assms
    by (simp add: executeRule_def Let_def cong: sum.case_cong option.case_cong if_cong)
  show "\<exists>res. executeRule E e ruleName rule t = Some (res, e, t')"
    using assms
    by (simp add: executeRule_def Let_def split: sum.splits option.splits)
next
  assume none: "Rule_CookieExpression rule = [] \<and> Rule_Expression rule = []"
  with assms show run: "executeRule E e ruleName rule t = Some (Inr True, e, t')"
    by (simp add: executeRule_def)
  assume "Cfg_Rules (config e) ruleName = Some rule"
  with run show "executeRules E e (ruleName # rest) t
      = executeRules E (e\<lparr>ruleResults := AList.update ruleName True (ruleResults e)\<rparr>) rest t'"
    by simp
qed

theorem extraction_failure_swallowed_witness:
  "Rule_ExtractCookie (extractRule ''/'' ''response.cookies'') \<noteq> []
   \<and> ExecuteRequest alwaysOK
        (httpClient (targetEngine (twoRules (extractRule ''/'' ''response.cookies'')
           (plainRule ''/next'') [])))
        (ruleOptions (extractRule ''/'' ''response.cookies'')) []
      = Some (Inr okResponse, [Attempt request0])
   \<and> ExtractCookie alwaysOK (Rule_ExtractCookie (extractRule ''/'' ''response.cookies''))
        (Some okResponse) = Inl (UnsupportedExtraction ''response.cookies'')
   \<and> executeRule alwaysOK
        (targetEngine (twoRules (extractRule ''/'' ''response.cookies'') (plainRule ''/next'') []))
        ''r0'' (extractRule ''/'' ''response.cookies'') []
      = Some (Inr True,
          targetEngine (twoRules (extractRule ''/'' ''response.cookies'') (plainRule ''/next'') []),
          [Attempt request0])
   \<and> Execute alwaysOK
        (targetEngine (twoRules (extractRule ''/'' ''response.cookies'') (plainRule ''/next'') []))
        [''r0'', ''r1''] []
      = Some (Inr True,
          (targetEngine (twoRules (extractRule ''/'' ''response.cookies'') (plainRule ''/next'') []))
            \<lparr>ruleResults := [(''r0'', True), (''r1'', True)]\<rparr>,
          [Attempt request0, Attempt (requestTo ''http://target/next'' None)])"
proof -
  let ?rule = "extractRule ''/'' ''response.cookies''"
  let ?e = "targetEngine (twoRules ?rule (plainRule ''/next'') [])"
  have h1: "Rule_ExtractCookie ?rule \<noteq> []"
    by (simp add: extractRule_def)
  have h2: "ExecuteRequest alwaysOK (httpClient ?e) (ruleOptions ?rule) []
      = Some (Inr okResponse, [Attempt request0])"
    by (simp add: run_defs extractRule_def plainRule_def targetEngine_def twoRules_def
        alwaysOK_def request0_def string_defs)
  have h3: "ExtractCookie alwaysOK (Rule_ExtractCookie ?rule) (Some okResponse)
      = Inl (UnsupportedExtraction ''response.cookies'')"
    by (simp add: ExtractCookie_def extractRule_def string_defs)
  have none: "Rule_CookieExpression ?rule = [] \<and> Rule_Expression ?rule = []"
    by (simp add: extractRule_def plainRule_def)
  have cfg: "Cfg_Rules (config ?e) ''r0'' = Some ?rule"
    by (simp add: targetEngine_def NewEngine_def twoRules_def)
  note inst = extraction_failure_swallowed [OF h1 h2 h3, of "''r0''" "[''r1'']"]
  from inst none have run: "executeRule alwaysOK ?e ''r0'' ?rule [] = Some (Inr True, ?e, [Attempt request0])"
    by blast
  from inst none cfg have "executeRules alwaysOK ?e [''r0'', ''r1''] []
      = executeRules alwaysOK (?e\<lparr>ruleResults := AList.update ''r0'' True (ruleResults ?e)\<rparr>)
          [''r1''] [Attempt request0]"
    by blast
  also have "\<dots> = Some (None, ?e\<lparr>ruleResults := [(''r0'', True), (''r1'', True)]\<rparr>,
      [Attempt request0, Attempt (requestTo ''http://target/next'' None)])"
    by (simp add: run_defs extractRule_def plainRule_def targetEngine_def twoRules_def
        alwaysOK_def request0_def requestTo_def attemptsMade_def string_defs)
  finally have "Execute alwaysOK ?e [''r0'', ''r1''] []
      = Some (Inr True, ?e\<lparr>ruleResults := [(''r0'', True), (''r1'', True)]\<rparr>,
          [Attempt request0, Attempt (requestTo ''http://target/next'' None)])"
    by (simp add: Execute_def targetEngine_def NewEngine_def twoRules_def)
  with h1 h2 h3 run show ?thesis by blast
qed

text \<open>
  C2. A run of the rules \<open>r0\<close>, with the cookie-validation expression
  \<open>cookie.contains('session')\<close>, and \<open>r1\<close>, with no cookie stored: the validation
  result is false, not an error; \<open>Execute\<close> returns the error of \<open>r0\<close>, records no
  outcome and never attempts the request of \<open>r1\<close>.
\<close>

theorem false_cookie_validation_aborts:
  "ValidateCookie alwaysOK (Rule_CookieExpression sessionRule) [] = Inr False
   \<and> Execute alwaysOK (targetEngine (twoRules sessionRule (plainRule ''/next'') ''r0() || r1()''))
        [''r0'', ''r1''] []
      = Some (Inl (RuleFailed ''r0'' CookieInvalid),
          targetEngine (twoRules sessionRule (plainRule ''/next'') ''r0() || r1()''),
          [Attempt (requestTo ''http://target/admin'' None)])
   \<and> ruleResults (targetEngine (twoRules sessionRule (plainRule ''/next'') ''r0() || r1()'')) = []"
  by (simp add: run_defs eval_defs example_defs string_defs)

text \<open>
  C3. A run of the rules \<open>r0\<close>, with the response-validation expression
  \<open>response.status==200\<close>, and \<open>r1\<close>, against a target that answers 404: the
  expression evaluates to false, not to an error; \<open>Execute\<close> returns the error of \<open>r0\<close>,
  records no outcome and never attempts the request of \<open>r1\<close>.
\<close>

theorem false_expression_aborts:
  "Evaluate notFound (Some (okResponse\<lparr>Resp_Status := 404\<rparr>), [])
     (Rule_Expression statusRule) = Inr False
   \<and> Execute notFound (targetEngine (twoRules statusRule (plainRule ''/next'') ''r0() || r1()''))
        [''r0'', ''r1''] []
      = Some (Inl (RuleFailed ''r0'' (ExpressionNotSatisfied ''response.status==200'')),
          targetEngine (twoRules statusRule (plainRule ''/next'') ''r0() || r1()''),
          [Attempt request0])
   \<and> ruleResults (targetEngine (twoRules statusRule (plainRule ''/next'') ''r0() || r1()'')) = []"
  by (simp add: run_defs eval_defs example_defs string_defs)

text \<open>
  C7. The rules \<open>r0\<close>, which stores the cookie of the response, and \<open>r1\<close>, which sends
  the stored cookie. The loop of \<open>Execute\<close> ranges over a Go map, so both enumerations
  of its two keys can occur. When \<open>r0\<close> comes first, the request of \<open>r1\<close> carries the
  cookie that \<open>r0\<close> stored; when \<open>r1\<close> comes first, its request carries no cookie.
\<close>

theorem rule_order_not_declaration_order:
  "rangeOrder (Cfg_Rules (twoRules loginRule adminRule ''r0() && r1()'')) [''r0'', ''r1'']
   \<and> rangeOrder (Cfg_Rules (twoRules loginRule adminRule ''r0() && r1()'')) [''r1'', ''r0'']
   \<and> map_option (snd \<circ> snd)
        (Execute setsCookie (targetEngine (twoRules loginRule adminRule ''r0() && r1()''))
          [''r0'', ''r1''] [])
      = Some [Attempt (requestTo ''http://target/login'' None),
              Attempt (requestTo ''http://target/admin'' (Some ''sid=1''))]
   \<and> map_option (snd \<circ> snd)
        (Execute setsCookie (targetEngine (twoRules loginRule adminRule ''r0() && r1()''))
          [''r1'', ''r0''] [])
      = Some [Attempt (requestTo ''http://target/admin'' None),
              Attempt (requestTo ''http://target/login'' None)]"
proof (intro conjI)
  show "rangeOrder (Cfg_Rules (twoRules loginRule adminRule ''r0() && r1()'')) [''r0'', ''r1'']"
    and "rangeOrder (Cfg_Rules (twoRules loginRule adminRule ''r0() && r1()'')) [''r1'', ''r0'']"
    by (auto simp: rangeOrder_def twoRules_def)
qed (simp_all add: run_defs eval_defs example_defs string_defs
      evaluateMainExpression_def ruleText_def Engine_removeComments_def replaceCalls.simps
      replaceBare.simps toLowerChar_def ToLower_def)

subsection \<open>Comparisons\<close>

lemma evaluateComparison_Inr:
  "evaluateComparison E ctx x op compare = Inr v \<longleftrightarrow>
     (\<exists>l r a b. Split x op = [l, r] \<and> evaluateValue E ctx (TrimSpace l) = Inr a
        \<and> evaluateValue E ctx (TrimSpace r) = Inr b \<and> v = compare a b)"
  by (auto simp: evaluateComparison_def split: list.splits sum.splits)

lemma evaluateNumericComparison_Inr:
  assumes "op \<in> set [''>='', ''<='', ''>'', ''<'']"
  shows "evaluateNumericComparison E ctx x op = Inr v \<longleftrightarrow>
     (\<exists>l r i j. Split x op = [l, r] \<and> evaluateNumericValue E ctx (TrimSpace l) = Inr i
        \<and> evaluateNumericValue E ctx (TrimSpace r) = Inr j
        \<and> v = (if op = ''>='' then j \<le> i else if op = ''<='' then i \<le> j
                 else if op = ''>'' then j < i else i < j))"
  using assms
  by (auto simp: evaluateNumericComparison_def split: list.splits sum.splits)

lemma evaluateNumericComparison_Inl:
  assumes "Split x op = [l, r]"
  shows "(evaluateNumericValue E ctx (TrimSpace l) = Inl err \<longrightarrow>
           evaluateNumericComparison E ctx x op = Inl err)
       \<and> (evaluateNumericValue E ctx (TrimSpace l) = Inr i
           \<and> evaluateNumericValue E ctx (TrimSpace r) = Inl err \<longrightarrow>
           evaluateNumericComparison E ctx x op = Inl err)"
  using assms by (simp add: evaluateNumericComparison_def)

lemma evaluateNumericValue_Inr:
  "evaluateNumericValue E ctx s = Inr i \<longleftrightarrow>
     evaluateValue E ctx s = Inr (DInt i)
     \<or> (\<exists>t. evaluateValue E ctx s = Inr (DString t) \<and> Atoi t = Some i)"
  by (auto simp: evaluateNumericValue_def split: sum.splits dyn.splits option.splits)

lemma evaluateNumericValue_mismatch:
  "(evaluateValue E ctx s = Inr (DBool b) \<longrightarrow>
      evaluateNumericValue E ctx s = Inl (NotANumber (DBool b)))
   \<and> (evaluateValue E ctx s = Inr (DString t) \<and> Atoi t = None \<longrightarrow>
      evaluateNumericValue E ctx s = Inl (AtoiError t))"
  by (simp add: evaluateNumericValue_def)

lemma evaluateSingle_comparison:
  assumes "\<not> (HasPrefix (TrimSpace expr) ''('' \<and> HasSuffix (TrimSpace expr) '')'')"
    and "\<not> Contains (TrimSpace expr) ''response.body.contains''"
    and "\<not> Contains (TrimSpace expr) ''cookie.contains''"
  shows "evaluateSingle E ctx expr =
    (if Contains (TrimSpace expr) ''=='' then
       evaluateComparison E ctx (TrimSpace expr) ''=='' (\<lambda>a b. Sprint a = Sprint b)
     else if Contains (TrimSpace expr) ''!='' then
       evaluateComparison E ctx (TrimSpace expr) ''!='' (\<lambda>a b. Sprint a \<noteq> Sprint b)
     else if Contains (TrimSpace expr) ''>='' then
       evaluateNumericComparison E ctx (TrimSpace expr) ''>=''
     else if Contains (TrimSpace expr) ''<='' then
       evaluateNumericComparison E ctx (TrimSpace expr) ''<=''
     else if Contains (TrimSpace expr) ''>'' then
       evaluateNumericComparison E ctx (TrimSpace expr) ''>''
     else if Contains (TrimSpace expr) ''<'' then
       evaluateNumericComparison E ctx (TrimSpace expr) ''<''
     else Inl (UnsupportedExpression (TrimSpace expr)))"
proof -
  from assms(1) have "evaluateSingle E ctx expr = evaluateClause E ctx (TrimSpace expr)"
    by (subst evaluateSingle.simps) (simp only: if_False)
  with assms(2,3) show ?thesis
    by (simp add: evaluateClause_def)
qed

lemma status_examples:
  "evaluateSingle E (Some (r\<lparr>Resp_Status := 200\<rparr>), c) ''response.status==200'' = Inr True"
  "evaluateSingle E (Some (r\<lparr>Resp_Status := 404\<rparr>), c) ''response.status>=200'' = Inr True"
  "evaluateSingle E (Some (r\<lparr>Resp_Status := 200\<rparr>), c) ''response.status<200'' = Inr False"
  by (simp_all add: eval_defs string_defs)

text \<open>
  What \<open>fmt.Sprintf("%v", _)\<close> prints, and comparisons that tell the text of a value
  from the value: a number and a string with the same text are equal, two numbers with
  different texts are equal, and a number and the string of its other text are not.
\<close>

lemma Sprint_examples:
  "Sprint (DString s) = s"
  "Sprint (DBool True) = ''true''"
  "Sprint (DBool False) = ''false''"
  "Sprint (DInt 200) = ''200''"
  "Sprint (DInt (- 15)) = ''-15''"
  by (simp_all add: decimal.simps char_of_def)

lemma text_examples:
  "evaluateSingle E ctx (quoted ''abc'' @ '' == '' @ quoted ''xyz'') = Inr False"
  "evaluateSingle E ctx (quoted ''abc'' @ '' != '' @ quoted ''xyz'') = Inr True"
  "evaluateSingle E ctx (quoted ''abc'' @ '' == '' @ dquoted ''abc'') = Inr True"
  "evaluateSingle E ctx (quoted ''abc'' @ '' != '' @ dquoted ''abc'') = Inr False"
  "evaluateSingle E (Some (r\<lparr>Resp_Status := 200\<rparr>), c) (''response.status == '' @ quoted ''200'')
     = Inr True"
  "evaluateSingle E (Some (r\<lparr>Resp_Status := 404\<rparr>), c) (''response.status == '' @ quoted ''200'')
     = Inr False"
  "evaluateSingle E (Some (r\<lparr>Resp_Status := 200\<rparr>), c) ''response.status != 200'' = Inr False"
  "evaluateSingle E (Some (r\<lparr>Resp_Status := 404\<rparr>), c) ''response.status != 200'' = Inr True"
  "evaluateSingle E ctx ''007 == 7'' = Inr True"
  "evaluateSingle E ctx (''007 == '' @ quoted ''007'') = Inr False"
  by (simp_all add: eval_defs string_defs char_of_def quoted_def dquoted_def)

lemma mismatch_examples:
  "evaluateSingle E (Some (r\<lparr>Resp_Status := 200\<rparr>), c) ''response.status >= abc''
     = Inl (AtoiError ''abc'')"
  "evaluateSingle E (Some (r\<lparr>Resp_Status := 200\<rparr>), c) (''response.status < '' @ quoted ''300'')
     = Inr True"
  "evaluateSingle E (Some (r\<lparr>Resp_Status := 200\<rparr>), c) (quoted ''abc'' @ '' <= 200'')
     = Inl (AtoiError ''abc'')"
  by (simp_all add: eval_defs string_defs char_of_def quoted_def dquoted_def)

text \<open>
  C8. A clause that is not in parentheses and calls neither \<open>response.body.contains\<close>
  nor \<open>cookie.contains\<close> is a comparison, the operator being the first of \<open>==\<close>,
  \<open>!=\<close>, \<open>>=\<close>, \<open><=\<close>, \<open>>\<close>, \<open><\<close> that occurs in it. \<open>==\<close> and \<open>!=\<close> compare what
  \<open>fmt.Sprintf("%v", _)\<close> prints of the two values: a string prints as itself, a boolean
  as \<open>true\<close> or \<open>false\<close>, an integer in decimal. So \<open>'abc' == 'xyz'\<close> is false and
  \<open>'abc' != 'xyz'\<close> is true, the status 200 is equal to the string \<open>'200'\<close>, and
  \<open>007 == 7\<close> is true where \<open>007 == '007'\<close> is false. An ordering operator gives a
  result exactly when both operands are integers (an integer value, or a string that
  \<open>strconv.Atoi\<close> reads), and the result is the comparison of the two integers; an
  operand that is a boolean or a string that is not a number makes the comparison fail
  with the error of the conversion, as in \<open>response.status >= abc\<close>.
  \<open>response.status==200\<close> is true at status 200, \<open>response.status>=200\<close> is true at
  status 404, \<open>response.status<200\<close> is false at status 200.
\<close>

theorem comparison_operators:
  "(\<not> (HasPrefix (TrimSpace expr) ''('' \<and> HasSuffix (TrimSpace expr) '')'')
      \<and> \<not> Contains (TrimSpace expr) ''response.body.contains''
      \<and> \<not> Contains (TrimSpace expr) ''cookie.contains'' \<longrightarrow>
      evaluateSingle E ctx expr =
        (if Contains (TrimSpace expr) ''=='' then
           evaluateComparison E ctx (TrimSpace expr) ''=='' (\<lambda>a b. Sprint a = Sprint b)
         else if Contains (TrimSpace expr) ''!='' then
           evaluateComparison E ctx (TrimSpace expr) ''!='' (\<lambda>a b. Sprint a \<noteq> Sprint b)
         else if Contains (TrimSpace expr) ''>='' then
           evaluateNumericComparison E ctx (TrimSpace expr) ''>=''
         else if Contains (TrimSpace expr) ''<='' then
           evaluateNumericComparison E ctx (TrimSpace expr) ''<=''
         else if Contains (TrimSpace expr) ''>'' then
           evaluateNumericComparison E ctx (TrimSpace expr) ''>''
         else if Contains (TrimSpace expr) ''<'' then
           evaluateNumericComparison E ctx (TrimSpace expr) ''<''
         else Inl (UnsupportedExpression (TrimSpace expr))))
   \<and> (evaluateComparison E ctx x op compare = Inr v \<longleftrightarrow>
        (\<exists>l r a b. Split x op = [l, r] \<and> evaluateValue E ctx (TrimSpace l) = Inr a
           \<and> evaluateValue E ctx (TrimSpace r) = Inr b \<and> v = compare a b))
   \<and> (op \<in> set [''>='', ''<='', ''>'', ''<''] \<longrightarrow>
        (evaluateNumericComparison E ctx x op = Inr v \<longleftrightarrow>
          (\<exists>l r i j. Split x op = [l, r] \<and> evaluateNumericValue E ctx (TrimSpace l) = Inr i
             \<and> evaluateNumericValue E ctx (TrimSpace r) = Inr j
             \<and> v = (if op = ''>='' then j \<le> i else if op = ''<='' then i \<le> j
                      else if op = ''>'' then j < i else i < j))))
   \<and> (Split x op = [l, r] \<longrightarrow>
        (evaluateNumericValue E ctx (TrimSpace l) = Inl err \<longrightarrow>
           evaluateNumericComparison E ctx x op = Inl err)
        \<and> (evaluateNumericValue E ctx (TrimSpace l) = Inr i
             \<and> evaluateNumericValue E ctx (TrimSpace r) = Inl err \<longrightarrow>
           evaluateNumericComparison E ctx x op = Inl err))
   \<and> (evaluateNumericValue E ctx s = Inr i \<longleftrightarrow>
        evaluateValue E ctx s = Inr (DInt i)
        \<or> (\<exists>t. evaluateValue E ctx s = Inr (DString t) \<and> Atoi t = Some i))
   \<and> (evaluateValue E ctx s = Inr (DBool b) \<longrightarrow>
        evaluateNumericValue E ctx s = Inl (NotANumber (DBool b)))
   \<and> (evaluateValue E ctx s = Inr (DString t) \<and> Atoi t = None \<longrightarrow>
        evaluateNumericValue E ctx s = Inl (AtoiError t))
   \<and> evaluateSingle E (Some (resp\<lparr>Resp_Status := 200\<rparr>), c) ''response.status==200'' = Inr True
   \<and> evaluateSingle E (Some (resp\<lparr>Resp_Status := 404\<rparr>), c) ''response.status>=200'' = Inr True
   \<and> evaluateSingle E (Some (resp\<lparr>Resp_Status := 200\<rparr>), c) ''response.status<200'' = Inr False
   \<and> Sprint (DString s) = s
   \<and> Sprint (DBool True) = ''true''
   \<and> Sprint (DBool False) = ''false''
   \<and> Sprint (DInt 200) = ''200''
   \<and> Sprint (DInt (- 15)) = ''-15''
   \<and> evaluateSingle E ctx (quoted ''abc'' @ '' == '' @ quoted ''xyz'') = Inr False
   \<and> evaluateSingle E ctx (quoted ''abc'' @ '' != '' @ quoted ''xyz'') = Inr True
   \<and> evaluateSingle E ctx (quoted ''abc'' @ '' == '' @ dquoted ''abc'') = Inr True
   \<and> evaluateSingle E ctx (quoted ''abc'' @ '' != '' @ dquoted ''abc'') = Inr False
   \<and> evaluateSingle E (Some (resp\<lparr>Resp_Status := 200\<rparr>), c)
        (''response.status == '' @ quoted ''200'') = Inr True
   \<and> evaluateSingle E (Some (resp\<lparr>Resp_Status := 404\<rparr>), c)
        (''response.status == '' @ quoted ''200'') = Inr False
   \<and> evaluateSingle E (Some (resp\<lparr>Resp_Status := 200\<rparr>), c) ''response.status != 200''
        = Inr False
   \<and> evaluateSingle E (Some (resp\<lparr>Resp_Status := 404\<rparr>), c) ''response.status != 200''
        = Inr True
   \<and> evaluateSingle E ctx ''007 == 7'' = Inr True
   \<and> evaluateSingle E ctx (''007 == '' @ quoted ''007'') = Inr False
   \<and> evaluateSingle E (Some (resp\<lparr>Resp_Status := 200\<rparr>), c) ''response.status >= abc''
        = Inl (AtoiError ''abc'')
   \<and> evaluateSingle E (Some (resp\<lparr>Resp_Status := 200\<rparr>), c)
        (''response.status < '' @ quoted ''300'') = Inr True
   \<and> evaluateSingle E (Some (resp\<lparr>Resp_Status := 200\<rparr>), c) (quoted ''abc'' @ '' <= 200'')
        = Inl (AtoiError ''abc'')"
proof (intro conjI, goal_cases)
  case 1
  show ?case using evaluateSingle_comparison [of expr E ctx] by blast
next
  case 2
  show ?case using evaluateComparison_Inr [of E ctx x op compare v] by blast
next
  case 3
  show ?case using evaluateNumericComparison_Inr [of op E ctx x v] by blast
next
  case 4
  show ?case using evaluateNumericComparison_Inl [of x op l r E ctx err i] by blast
next
  case 5
  show ?case using evaluateNumericValue_Inr [of E ctx s i] by blast
next
  case 6
  show ?case using evaluateNumericValue_mismatch [of E ctx s b t] by blast
next
  case 7
  show ?case using evaluateNumericValue_mismatch [of E ctx s b t] by blast
qed (rule status_examples Sprint_examples text_examples mismatch_examples)+

theorem comparison_operators_witness:
  "\<not> (HasPrefix (TrimSpace ''response.status >= abc'') ''(''
        \<and> HasSuffix (TrimSpace ''response.status >= abc'') '')'')
   \<and> \<not> Contains (TrimSpace ''response.status >= abc'') ''response.body.contains''
   \<and> \<not> Contains (TrimSpace ''response.status >= abc'') ''cookie.contains''
   \<and> ''>='' \<in> set [''>='', ''<='', ''>'', ''<'']
   \<and> Split ''response.status >= abc'' ''>='' = [''response.status '', '' abc'']
   \<and> evaluateValue alwaysOK (Some okResponse, []) ''response.status'' = Inr (DInt 200)
   \<and> evaluateValue alwaysOK (Some okResponse, []) ''abc'' = Inr (DString ''abc'')
   \<and> Atoi ''abc'' = None
   \<and> evaluateSingle alwaysOK (Some okResponse, []) ''response.status >= abc'' = Inl (AtoiError ''abc'')
   \<and> evaluateValue alwaysOK (Some okResponse, []) ''100'' = Inr (DInt 100)
   \<and> evaluateSingle alwaysOK (Some okResponse, []) ''response.status >= 100'' = Inr True"
proof -
  let ?ctx = "(Some okResponse, [])"
  have route: "\<not> (HasPrefix (TrimSpace ''response.status >= abc'') ''(''
        \<and> HasSuffix (TrimSpace ''response.status >= abc'') '')'')"
    "\<not> Contains (TrimSpace ''response.status >= abc'') ''response.body.contains''"
    "\<not> Contains (TrimSpace ''response.status >= abc'') ''cookie.contains''"
    and route': "\<not> (HasPrefix (TrimSpace ''response.status >= 100'') ''(''
        \<and> HasSuffix (TrimSpace ''response.status >= 100'') '')'')"
    "\<not> Contains (TrimSpace ''response.status >= 100'') ''response.body.contains''"
    "\<not> Contains (TrimSpace ''response.status >= 100'') ''cookie.contains''"
    by (simp_all add: string_defs)
  have trim: "TrimSpace ''response.status >= abc'' = ''response.status >= abc''"
    "TrimSpace ''response.status >= 100'' = ''response.status >= 100''"
    "TrimSpace ''response.status '' = ''response.status''"
    "TrimSpace '' abc'' = ''abc''" "TrimSpace '' 100'' = ''100''"
    by (simp_all add: string_defs)
  have ops: "\<not> Contains ''response.status >= abc'' ''==''"
    "\<not> Contains ''response.status >= abc'' ''!=''"
    "Contains ''response.status >= abc'' ''>=''"
    "\<not> Contains ''response.status >= 100'' ''==''"
    "\<not> Contains ''response.status >= 100'' ''!=''"
    "Contains ''response.status >= 100'' ''>=''"
    by (simp_all add: string_defs)
  have split: "Split ''response.status >= abc'' ''>='' = [''response.status '', '' abc'']"
    "Split ''response.status >= 100'' ''>='' = [''response.status '', '' 100'']"
    by (simp_all add: string_defs)
  have vals: "evaluateValue alwaysOK ?ctx ''response.status'' = Inr (DInt 200)"
    "evaluateValue alwaysOK ?ctx ''abc'' = Inr (DString ''abc'')"
    "evaluateValue alwaysOK ?ctx ''100'' = Inr (DInt 100)"
    "Atoi ''abc'' = None"
    by (simp_all add: evaluateValue_def Atoi_def digitsValue_def okResponse_def string_defs)
  have mem: "''>='' \<in> set [''>='', ''<='', ''>'', ''<'']"
    by simp
  note abc = comparison_operators [where E = alwaysOK and expr = "''response.status >= abc''" and ctx = ?ctx
      and x = "''response.status >= abc''" and op = "''>=''" and l = "''response.status ''"
      and r = "'' abc''" and err = "AtoiError ''abc''" and i = 200 and s = "''abc''"
      and t = "''abc''"]
  note status = comparison_operators [where E = alwaysOK and ctx = ?ctx and s = "''response.status''"
      and i = 200]
  note hundred = comparison_operators [where E = alwaysOK and expr = "''response.status >= 100''"
      and ctx = ?ctx and x = "''response.status >= 100''" and op = "''>=''" and v = True
      and s = "''100''" and i = 100]
  from status [THEN conjunct2, THEN conjunct2, THEN conjunct2, THEN conjunct2, THEN conjunct1]
    vals(1)
  have n1: "evaluateNumericValue alwaysOK ?ctx ''response.status'' = Inr 200"
    by blast
  from abc [THEN conjunct2, THEN conjunct2, THEN conjunct2, THEN conjunct2, THEN conjunct2,
      THEN conjunct2, THEN conjunct1] vals(2,4)
  have n2: "evaluateNumericValue alwaysOK ?ctx ''abc'' = Inl (AtoiError ''abc'')"
    by blast
  from hundred [THEN conjunct2, THEN conjunct2, THEN conjunct2, THEN conjunct2, THEN conjunct1]
    vals(3)
  have n3: "evaluateNumericValue alwaysOK ?ctx ''100'' = Inr 100"
    by blast
  from abc [THEN conjunct1] route
  have "evaluateSingle alwaysOK ?ctx ''response.status >= abc''
      = evaluateNumericComparison alwaysOK ?ctx ''response.status >= abc'' ''>=''"
    by (simp only: trim ops if_False if_True simp_thms)
  moreover from abc [THEN conjunct2, THEN conjunct2, THEN conjunct2, THEN conjunct1] split(1)
    n1 n2
  have "evaluateNumericComparison alwaysOK ?ctx ''response.status >= abc'' ''>='' = Inl (AtoiError ''abc'')"
    by (simp only: trim simp_thms)
  ultimately have r1: "evaluateSingle alwaysOK ?ctx ''response.status >= abc'' = Inl (AtoiError ''abc'')"
    by (simp only:)
  from hundred [THEN conjunct1] route'
  have "evaluateSingle alwaysOK ?ctx ''response.status >= 100''
      = evaluateNumericComparison alwaysOK ?ctx ''response.status >= 100'' ''>=''"
    by (simp only: trim ops if_False if_True simp_thms)
  moreover
  have "\<exists>l r i j. Split ''response.status >= 100'' ''>='' = [l, r]
      \<and> evaluateNumericValue alwaysOK ?ctx (TrimSpace l) = Inr i
      \<and> evaluateNumericValue alwaysOK ?ctx (TrimSpace r) = Inr j
      \<and> True = (if ''>='' = ''>='' then j \<le> i else if ''>='' = ''<='' then i \<le> j
                   else if ''>='' = ''>'' then j < i else i < j)"
    using split(2) n1 n3 by (intro exI [of _ "''response.status ''"] exI [of _ "'' 100''"]
        exI [of _ 200] exI [of _ 100]) (simp add: trim)
  with hundred [THEN conjunct2, THEN conjunct2, THEN conjunct1] mem
  have "evaluateNumericComparison alwaysOK ?ctx ''response.status >= 100'' ''>='' = Inr True"
    by blast
  ultimately have r2: "evaluateSingle alwaysOK ?ctx ''response.status >= 100'' = Inr True"
    by (simp only:)
  from route mem split(1) vals r1 r2 show ?thesis by blast
qed

end
